theory Spec2Isabelle
  imports Complex_Main "HOL-Library.AList"
begin

section \<open>The level generator of \<open>src/views/game.js\<close>\<close>

text \<open>
  \<open>generateLevel(audioBuffer, difficulty)\<close> analyses the first channel of an audio
  buffer and returns the chart of a level: a list of \<open>{time, key}\<close> notes. The function
  is one body with seven commented steps; each step is a definition below, named after
  the variable the step fills, and \<open>generateLevel\<close> composes them in the order of the
  source.

  JavaScript numbers are modelled as \<^typ>\<open>real\<close>: sums, quotients and square roots are
  exact, and there is no \<open>NaN\<close> and no \<open>Infinity\<close>. The one place where the source
  starts from \<open>Infinity\<close> (the running minimum of the quantizer) is an
  \<^typ>\<open>real option\<close> with \<open>None\<close> for \<open>Infinity\<close>; the one place where it produces
  \<open>NaN\<close> (a histogram cell beyond the array) is a \<^typ>\<open>nat option\<close> with \<open>None\<close>
  for \<open>NaN\<close>. The two \<open>while\<close> loops of the tempo estimation are partial functions:
  \<open>None\<close> is a loop that never ends.

  Exact arithmetic and doubles can differ where a result is decided by the last bit of a
  double: the bin width of intervals that are equal over the reals, the histogram cell of
  the largest interval, a gap at the minimum separation.

  The sample rate \<open>sr\<close> is a divisor: the model is that of the source for \<open>sr > 0\<close>,
  the only rates an audio buffer has. Array reads are written \<open>xs ! i\<close> where the source
  reads in range, which is shown for each of them (\<open>peak_frames_in_range\<close>,
  \<open>rescue_frame_in_range\<close>), and as an explicit test where the source relies on
  \<open>undefined\<close>.
\<close>

subsection \<open>Configuration parameters\<close>

datatype difficulty = Easy | Medium | Hard

definition winSize :: nat where
  "winSize = 1024"

definition hop :: nat where
  "hop = winSize div 2"

fun minNoteSeparation :: "difficulty \<Rightarrow> real" where
  "minNoteSeparation Easy = 0.3"
| "minNoteSeparation Medium = 0.15"
| "minNoteSeparation Hard = 0.08"

fun odfSensitivity :: "difficulty \<Rightarrow> real" where
  "odfSensitivity Easy = 0.5"
| "odfSensitivity Medium = 0.8"
| "odfSensitivity Hard = 1.2"

definition odfSmoothWindow :: real where
  "odfSmoothWindow = 3"

definition minBPM :: real where
  "minBPM = 60"

definition maxBPM :: real where
  "maxBPM = 200"

definition ioiHistogramBins :: nat where
  "ioiHistogramBins = 50"

fun quantizationGrid :: "difficulty \<Rightarrow> real list" where
  "quantizationGrid Easy = [1, 0.5]"
| "quantizationGrid Medium = [1, 0.5, 0.25]"
| "quantizationGrid Hard = [1, 0.5, 0.25, 0.125]"

definition strongNoteThreshold :: real where
  "strongNoteThreshold = 0.6"

subsection \<open>Step 1: the RMS energy envelope\<close>

text \<open>
  \<open>for (i = 0; i + winSize <= raw.length; i += hop)\<close>: one value per window, the square
  root of the mean of the squared samples. Every read \<open>raw[i + j]\<close> is in range by the
  loop condition.
\<close>

definition windowRms :: "real list \<Rightarrow> nat \<Rightarrow> real" where
  "windowRms raw i =
     sqrt (foldl (\<lambda>sum j. sum + (raw ! (i + j))\<^sup>2) 0 [0..<winSize] / real winSize)"

function rmsLoop :: "real list \<Rightarrow> nat \<Rightarrow> real list" where
  "rmsLoop raw i =
     (if i + winSize \<le> length raw then windowRms raw i # rmsLoop raw (i + hop) else [])"
  by pat_completeness auto
termination
  by (relation "measure (\<lambda>(raw, i). length raw - i)") (auto simp: winSize_def hop_def)

declare rmsLoop.simps [simp del]

definition rmsEnvelope :: "real list \<Rightarrow> real list" where
  "rmsEnvelope raw = rmsLoop raw 0"

subsection \<open>Step 2: the onset detection function and its smoothing\<close>

text \<open>\<open>odf = [0]\<close>, then the positive part of each first difference of the envelope.\<close>

definition odfOf :: "real list \<Rightarrow> real list" where
  "odfOf rms = 0 # map (\<lambda>i. max 0 (rms ! i - rms ! (i - 1))) [1..<length rms]"

text \<open>
  The inner loop of the smoothing runs \<open>j\<close> from \<open>-Math.floor(odfSmoothWindow / 2)\<close> to
  \<open>Math.ceil(odfSmoothWindow / 2)\<close>, both bounds included, and adds \<open>odf[i + j]\<close> when it
  is not \<open>undefined\<close>, that is when \<open>i + j\<close> is an index of the array.
\<close>

definition smoothStep :: "real list \<Rightarrow> nat \<Rightarrow> real \<times> nat \<Rightarrow> int \<Rightarrow> real \<times> nat" where
  "smoothStep odf i = (\<lambda>(sum, count) j.
     if 0 \<le> int i + j \<and> int i + j < int (length odf)
     then (sum + odf ! nat (int i + j), count + 1)
     else (sum, count))"

definition smoothAt :: "real list \<Rightarrow> nat \<Rightarrow> real" where
  "smoothAt odf i =
     (let (sum, count) = foldl (smoothStep odf i) (0, 0)
                           [- \<lfloor>odfSmoothWindow / 2\<rfloor> .. \<lceil>odfSmoothWindow / 2\<rceil>]
      in sum / real count)"

definition smoothOdf :: "real list \<Rightarrow> real list" where
  "smoothOdf odf = map (smoothAt odf) [0..<length odf]"

subsection \<open>Step 3: dynamic peak picking\<close>

record timed =
  time :: real

record onset = timed +
  originalRms :: real
  odfValue :: real

definition odfValuesForThreshold :: "real list \<Rightarrow> real list" where
  "odfValuesForThreshold smoothedOdf = filter (\<lambda>v. v > 0) smoothedOdf"

definition meanOdf :: "real list \<Rightarrow> real" where
  "meanOdf smoothedOdf =
     (let vs = odfValuesForThreshold smoothedOdf
      in if length vs > 0 then foldl (\<lambda>a b. a + b) 0 vs / real (length vs) else 0)"

definition stdOdf :: "real list \<Rightarrow> real" where
  "stdOdf smoothedOdf =
     (let vs = odfValuesForThreshold smoothedOdf
      in if length vs > 0
         then sqrt (foldl (\<lambda>a b. a + (b - meanOdf smoothedOdf)\<^sup>2) 0 vs / real (length vs))
         else 0)"

definition dynamicThreshold :: "difficulty \<Rightarrow> real list \<Rightarrow> real" where
  "dynamicThreshold d smoothedOdf = meanOdf smoothedOdf + stdOdf smoothedOdf * odfSensitivity d"

text \<open>The object pushed for frame \<open>i\<close>; \<open>sr\<close> is \<open>audioBuffer.sampleRate\<close>.\<close>

definition onsetAt :: "real \<Rightarrow> real list \<Rightarrow> real list \<Rightarrow> nat \<Rightarrow> onset" where
  "onsetAt sr rms smoothedOdf i =
     \<lparr>time = real (i * hop) / sr, originalRms = rms ! i, odfValue = smoothedOdf ! i\<rparr>"

definition peakLoop :: "real \<Rightarrow> difficulty \<Rightarrow> real list \<Rightarrow> real list \<Rightarrow> onset list" where
  "peakLoop sr d rms smoothedOdf =
     foldl (\<lambda>detectedOnsets i.
              if smoothedOdf ! i > dynamicThreshold d smoothedOdf \<and>
                 smoothedOdf ! i > smoothedOdf ! (i - 1) \<and>
                 smoothedOdf ! i > smoothedOdf ! (i + 1)
              then detectedOnsets @ [onsetAt sr rms smoothedOdf i]
              else detectedOnsets)
       [] [1..<length smoothedOdf - 1]"

text \<open>\<open>Array.prototype.findIndex\<close>: the first index whose element passes, or \<open>-1\<close>.\<close>

fun findIndex :: "('a \<Rightarrow> bool) \<Rightarrow> 'a list \<Rightarrow> int" where
  "findIndex p [] = - 1"
| "findIndex p (x # xs) =
     (if p x then 0 else (let r = findIndex p xs in if r < 0 then - 1 else r + 1))"

definition firstStrongOdfIdx :: "real list \<Rightarrow> int" where
  "firstStrongOdfIdx smoothedOdf =
     findIndex (\<lambda>v. v > meanOdf smoothedOdf + stdOdf smoothedOdf * 0.1) smoothedOdf"

definition leadingRescue :: "real \<Rightarrow> real list \<Rightarrow> real list \<Rightarrow> onset list \<Rightarrow> onset list" where
  "leadingRescue sr rms smoothedOdf detectedOnsets =
     (let idx = firstStrongOdfIdx smoothedOdf
      in if idx \<ge> 0 \<and>
            (length detectedOnsets = 0 \<or>
             time (detectedOnsets ! 0) > real_of_int (idx * int hop) / sr + 0.1)
         then onsetAt sr rms smoothedOdf (nat idx) # detectedOnsets
         else detectedOnsets)"

text \<open>
  The candidates of an envelope: peak loop, rescue, then
  \<open>detectedOnsets.sort((a, b) => a.time - b.time)\<close>, which is stable.
\<close>

definition detectOnsets :: "real \<Rightarrow> difficulty \<Rightarrow> real list \<Rightarrow> onset list" where
  "detectOnsets sr d rms =
     (let smoothedOdf = smoothOdf (odfOf rms)
      in sort_key time (leadingRescue sr rms smoothedOdf (peakLoop sr d rms smoothedOdf)))"

subsection \<open>Step 4: tempo estimation\<close>

definition ioisOf :: "onset list \<Rightarrow> real list" where
  "ioisOf detectedOnsets =
     map (\<lambda>i. time (detectedOnsets ! i) - time (detectedOnsets ! (i - 1)))
       [1..<length detectedOnsets]"

text \<open>
  \<open>ioiHistogram[binIdx]++\<close> on an array of \<open>ioiHistogramBins\<close> zeros. The largest interval
  falls at index \<open>ioiHistogramBins\<close>, one past the end: there JavaScript increments
  \<open>undefined\<close>, stores \<open>NaN\<close> and lengthens the array. \<open>None\<close> is such a cell (or a
  hole before it); the scan for the fullest bin compares it with \<open>>\<close>, which is false.
\<close>

definition bumpBin :: "nat option list \<Rightarrow> nat \<Rightarrow> nat option list" where
  "bumpBin ioiHistogram binIdx =
     (if binIdx < length ioiHistogram
      then ioiHistogram[binIdx := map_option Suc (ioiHistogram ! binIdx)]
      else ioiHistogram @ replicate (binIdx - length ioiHistogram) None @ [None])"

definition fillHistogram :: "real list \<Rightarrow> real \<Rightarrow> real \<Rightarrow> real \<Rightarrow> nat option list" where
  "fillHistogram iois minIoi maxIoi binWidth =
     foldl (\<lambda>ioiHistogram ioi.
              if ioi \<ge> minIoi \<and> ioi \<le> maxIoi \<and> binWidth > 0
              then bumpBin ioiHistogram (nat \<lfloor>(ioi - minIoi) / binWidth\<rfloor>)
              else ioiHistogram)
       (replicate ioiHistogramBins (Some 0)) iois"

definition fullestBin :: "nat option list \<Rightarrow> nat \<times> int" where
  "fullestBin ioiHistogram =
     foldl (\<lambda>(maxCount, maxBinIdx) i.
              case ioiHistogram ! i of
                Some c \<Rightarrow> if c > maxCount then (c, int i) else (maxCount, maxBinIdx)
              | None \<Rightarrow> (maxCount, maxBinIdx))
       (0, - 1) [0..<length ioiHistogram]"

definition dominantIoi :: "onset list \<Rightarrow> real" where
  "dominantIoi detectedOnsets =
     (let iois = ioisOf detectedOnsets
      in if length iois > 0
         then (let minIoi = fold min (tl iois) (hd iois);
                   maxIoi = fold max (tl iois) (hd iois);
                   binWidth = (maxIoi - minIoi) / real ioiHistogramBins;
                   (maxCount, maxBinIdx) = fullestBin (fillHistogram iois minIoi maxIoi binWidth)
               in if maxBinIdx \<noteq> - 1
                  then minIoi + (real_of_int maxBinIdx + 0.5) * binWidth
                  else 0)
         else 0)"

text \<open>
  The two octave loops, \<open>while (e > 60 / minBPM && e > 0.1) e /= 2\<close> and
  \<open>while (e < 60 / maxBPM && e < 2) e *= 2\<close>.
\<close>

partial_function (option) halveLoop :: "real \<Rightarrow> real option" where
  "halveLoop e = (if e > 60 / minBPM \<and> e > 0.1 then halveLoop (e / 2) else Some e)"

partial_function (option) doubleLoop :: "real \<Rightarrow> real option" where
  "doubleLoop e = (if e < 60 / maxBPM \<and> e < 2 then doubleLoop (e * 2) else Some e)"

definition octaveCorrection :: "real \<Rightarrow> real option" where
  "octaveCorrection e =
     (if e > 60 / minBPM then halveLoop e
      else if e < 60 / maxBPM then doubleLoop e
      else Some e)"

text \<open>The fallback; \<open>isNaN\<close> has no case over the reals.\<close>

definition tempoFallback :: "real \<Rightarrow> real" where
  "tempoFallback e = (if e = 0 \<or> e < 0.1 \<or> e > 2 then 0.5 else e)"

definition estimatedBeatDuration :: "onset list \<Rightarrow> real option" where
  "estimatedBeatDuration detectedOnsets =
     map_option tempoFallback (octaveCorrection (dominantIoi detectedOnsets))"

subsection \<open>Step 5: rhythmic quantization\<close>

text \<open>
  The body of \<open>quantizationGrid.forEach\<close> for one onset. The state is
  \<open>(bestQuantizedTime, minTimeDiff)\<close>; \<open>minTimeDiff\<close> starts at \<open>Infinity\<close>, here
  \<open>None\<close>, below which every difference lies. \<open>Math.round\<close> rounds halves up, as
  \<^const>\<open>round\<close> does.
\<close>

definition snapStep :: "real \<Rightarrow> real \<Rightarrow> onset \<Rightarrow> real \<times> real option \<Rightarrow> real \<Rightarrow> real \<times> real option" where
  "snapStep estimatedBeat startTime onset = (\<lambda>(bestQuantizedTime, minTimeDiff) subdivision.
     let beatUnit = estimatedBeat * subdivision
     in if beatUnit = 0 then (bestQuantizedTime, minTimeDiff)
        else (let numBeatUnits = (time onset - startTime) / beatUnit;
                  nearestGridPoint = real_of_int (round numBeatUnits) * beatUnit + startTime;
                  timeDiff = \<bar>time onset - nearestGridPoint\<bar>
              in if (case minTimeDiff of None \<Rightarrow> True | Some m \<Rightarrow> timeDiff < m)
                 then (nearestGridPoint, Some timeDiff)
                 else (bestQuantizedTime, minTimeDiff)))"

definition quantizeOnset :: "real \<Rightarrow> real list \<Rightarrow> real \<Rightarrow> onset \<Rightarrow> onset" where
  "quantizeOnset estimatedBeat grid startTime onset =
     (let (bestQuantizedTime, minTimeDiff) =
            foldl (snapStep estimatedBeat startTime onset) (time onset, None) grid
      in \<lparr>time = max 0 bestQuantizedTime,
          originalRms = originalRms onset,
          odfValue = odfValue onset\<rparr>)"

definition quantizedNotesOf :: "real \<Rightarrow> real list \<Rightarrow> onset list \<Rightarrow> onset list" where
  "quantizedNotesOf estimatedBeat grid detectedOnsets =
     (let startTime = (if length detectedOnsets > 0 then time (detectedOnsets ! 0) else 0)
      in map (quantizeOnset estimatedBeat grid startTime) detectedOnsets)"

subsection \<open>Step 6: key assignment\<close>

record note_event = timed +
  key :: string

text \<open>
  \<open>allRmsValues[Math.floor(allRmsValues.length * strongNoteThreshold)] || 0\<close>: the read
  is out of range only for the empty array, and \<open>|| 0\<close> turns \<open>undefined\<close> into 0.
\<close>

definition strongRmsThreshold :: "onset list \<Rightarrow> real" where
  "strongRmsThreshold quantizedNotes =
     (let allRmsValues = sort (map originalRms quantizedNotes);
          idx = nat \<lfloor>real (length allRmsValues) * strongNoteThreshold\<rfloor>
      in if idx < length allRmsValues then allRmsValues ! idx else 0)"

text \<open>The state of the loop is \<open>(finalNotes, lastStrongKey, lastWeakKey)\<close>.\<close>

definition keyStep :: "real \<Rightarrow> note_event list \<times> string \<times> string \<Rightarrow> onset \<Rightarrow> note_event list \<times> string \<times> string" where
  "keyStep threshold = (\<lambda>(finalNotes, lastStrongKey, lastWeakKey) n.
     if originalRms n \<ge> threshold
     then (let key = (if lastStrongKey = ''ArrowUp'' then ''ArrowDown'' else ''ArrowUp'')
           in (finalNotes @ [\<lparr>time = time n, key = key\<rparr>], key, lastWeakKey))
     else (let key = (if lastWeakKey = ''ArrowLeft'' then ''ArrowRight'' else ''ArrowLeft'')
           in (finalNotes @ [\<lparr>time = time n, key = key\<rparr>], lastStrongKey, key)))"

definition finalNotesOf :: "onset list \<Rightarrow> note_event list" where
  "finalNotesOf quantizedNotes =
     fst (foldl (keyStep (strongRmsThreshold quantizedNotes))
            ([], ''ArrowUp'', ''ArrowLeft'') quantizedNotes)"

subsection \<open>Step 7: deduplication and minimum separation\<close>

text \<open>
  \<open>uniqueNotesMap\<close> is a \<open>Map\<close>: it keeps its keys in the order of their first insertion,
  and \<open>set\<close> on a key it has replaces the value in place. That is an association list
  under \<^const>\<open>AList.update\<close>.
\<close>

definition timeKeyOf :: "real \<Rightarrow> int" where
  "timeKeyOf t = round (t * 1000)"

definition originalNoteFor :: "onset list \<Rightarrow> int \<Rightarrow> real \<Rightarrow> onset option" where
  "originalNoteFor quantizedNotes timeKey t =
     find (\<lambda>qn. round (time qn * 1000) = timeKey \<and> time qn = t) quantizedNotes"

definition dedupStep :: "onset list \<Rightarrow> (int \<times> note_event) list \<Rightarrow> note_event \<Rightarrow> (int \<times> note_event) list" where
  "dedupStep quantizedNotes uniqueNotesMap n =
     (let timeKey = timeKeyOf (time n)
      in case map_of uniqueNotesMap timeKey of
           None \<Rightarrow> AList.update timeKey n uniqueNotesMap
         | Some existingNote \<Rightarrow>
             (case (originalNoteFor quantizedNotes timeKey (time n),
                    originalNoteFor quantizedNotes timeKey (time existingNote)) of
                (Some originalNoteForCurrent, Some originalNoteForExisting) \<Rightarrow>
                  if odfValue originalNoteForCurrent > odfValue originalNoteForExisting
                  then AList.update timeKey n uniqueNotesMap
                  else uniqueNotesMap
              | _ \<Rightarrow> uniqueNotesMap))"

definition uniqueNotesMapOf :: "onset list \<Rightarrow> note_event list \<Rightarrow> (int \<times> note_event) list" where
  "uniqueNotesMapOf quantizedNotes finalNotes = foldl (dedupStep quantizedNotes) [] finalNotes"

definition filteredNotesOf :: "onset list \<Rightarrow> note_event list \<Rightarrow> note_event list" where
  "filteredNotesOf quantizedNotes finalNotes =
     sort_key time (map snd (uniqueNotesMapOf quantizedNotes finalNotes))"

definition processedNotesOf :: "real \<Rightarrow> note_event list \<Rightarrow> note_event list" where
  "processedNotesOf minSep filteredNotes =
     (if length filteredNotes > 0
      then foldl (\<lambda>processedNotes n.
                    if time n - time (last processedNotes) \<ge> minSep
                    then processedNotes @ [n]
                    else processedNotes)
             [filteredNotes ! 0] (tl filteredNotes)
      else [])"

subsection \<open>The whole function\<close>

text \<open>Steps 5 to 7, which run once the beat period is known.\<close>

definition chartOf :: "difficulty \<Rightarrow> real \<Rightarrow> onset list \<Rightarrow> note_event list" where
  "chartOf d estimatedBeat detectedOnsets =
     (let quantizedNotes = quantizedNotesOf estimatedBeat (quantizationGrid d) detectedOnsets;
          finalNotes = finalNotesOf quantizedNotes
      in processedNotesOf (minNoteSeparation d) (filteredNotesOf quantizedNotes finalNotes))"

text \<open>
  \<open>generateLevel raw sr d\<close>, with \<open>raw = audioBuffer.getChannelData(0)\<close> and
  \<open>sr = audioBuffer.sampleRate\<close>. The result is \<open>None\<close> when an octave loop of step 4
  does not end, so that the function never returns.
\<close>

definition generateLevel :: "real list \<Rightarrow> real \<Rightarrow> difficulty \<Rightarrow> note_event list option" where
  "generateLevel raw sr d =
     (let detectedOnsets = detectOnsets sr d (rmsEnvelope raw)
      in case estimatedBeatDuration detectedOnsets of
           None \<Rightarrow> None
         | Some estimatedBeat \<Rightarrow> Some (chartOf d estimatedBeat detectedOnsets))"

section \<open>Vocabulary of the properties\<close>

text \<open>
  The definitions of this section are not code of the repository. The first group writes
  down, in the words of the specification, what a stage is said to compute, to be compared
  with the definition taken from the source; the second group names test signals; the
  third group is used in proofs only.
\<close>

subsection \<open>The specification's words\<close>

text \<open>
  The specification's smoothing: the mean of the raw values at \<open>i - 1\<close>, \<open>i\<close> and
  \<open>i + 1\<close>, those of the three that are indices of the curve.
\<close>

definition centredMean3 :: "real list \<Rightarrow> nat \<Rightarrow> real" where
  "centredMean3 curve i =
     (let inRange = [k \<leftarrow> [int i - 1, int i, int i + 1]. 0 \<le> k \<and> k < int (length curve)]
      in sum_list (map (\<lambda>k. curve ! nat k) inRange) / real (length inRange))"

text \<open>Mean and standard deviation of a list, and the strictly positive values of a curve.\<close>

definition positiveValues :: "real list \<Rightarrow> real list" where
  "positiveValues curve = [v \<leftarrow> curve. 0 < v]"

definition meanOf :: "real list \<Rightarrow> real" where
  "meanOf vs = (if vs = [] then 0 else sum_list vs / real (length vs))"

definition stdDevOf :: "real list \<Rightarrow> real" where
  "stdDevOf vs =
     (if vs = [] then 0
      else sqrt (sum_list (map (\<lambda>v. (v - meanOf vs)\<^sup>2) vs) / real (length vs)))"

text \<open>
  The grid of one subdivision: the multiples of \<open>estimatedBeat * subdivision\<close>, counted
  from the grid origin.
\<close>

definition gridPoint :: "real \<Rightarrow> real \<Rightarrow> real \<Rightarrow> int \<Rightarrow> real" where
  "gridPoint startTime estimatedBeat subdivision m =
     real_of_int m * (estimatedBeat * subdivision) + startTime"

text \<open>
  The frames of the specification's onset picker. The strict peaks: the frames, other than
  the first and the last, whose value is strictly above both neighbours and strictly above
  \<open>mean + stdDev * sensitivity\<close>. The loose frames: those above the looser threshold
  \<open>mean + stdDev * 0.1\<close>. The rescued frame: the first loose frame, when there is no
  strict peak or the first strict peak is more than 0.1 s after it.
\<close>

definition strictPeakFrames :: "difficulty \<Rightarrow> real list \<Rightarrow> nat list" where
  "strictPeakFrames d curve =
     [i \<leftarrow> [1..<length curve - 1].
        curve ! i > curve ! (i - 1) \<and> curve ! i > curve ! (i + 1) \<and>
        curve ! i > meanOf (positiveValues curve) + stdDevOf (positiveValues curve) * odfSensitivity d]"

definition looseFrames :: "real list \<Rightarrow> nat list" where
  "looseFrames curve =
     [i \<leftarrow> [0..<length curve].
        curve ! i > meanOf (positiveValues curve) + stdDevOf (positiveValues curve) * 0.1]"

definition rescuedFrames :: "real \<Rightarrow> difficulty \<Rightarrow> real list \<Rightarrow> nat list" where
  "rescuedFrames sr d curve =
     (case looseFrames curve of
        [] \<Rightarrow> []
      | r # _ \<Rightarrow>
          (case strictPeakFrames d curve of
             [] \<Rightarrow> [r]
           | p # _ \<Rightarrow> if real (p * hop) / sr > real (r * hop) / sr + 0.1 then [r] else []))"

text \<open>The two pairs of lane symbols.\<close>

definition strongLane :: "string \<Rightarrow> bool" where
  "strongLane k = (k = ''ArrowUp'' \<or> k = ''ArrowDown'')"

definition weakLane :: "string \<Rightarrow> bool" where
  "weakLane k = (k = ''ArrowLeft'' \<or> k = ''ArrowRight'')"

subsection \<open>Test signals\<close>

text \<open>
  A signal made of blocks of \<open>hop\<close> samples: block \<open>k\<close> starts with the sample
  \<open>cs ! k\<close> and is silent after it. A window of \<open>winSize\<close> samples covers two blocks,
  so its energy is the sum of two squares.
\<close>

definition impulseBlocks :: "real list \<Rightarrow> real list" where
  "impulseBlocks cs = concat (map (\<lambda>c. c # replicate (hop - 1) 0) cs)"

text \<open>
  Five clicks of amplitude 128 in 21 blocks (10752 samples). At 10240 Hz the candidates are
  at 0.2 s, 0.35 s and 0.7 s.
\<close>

definition demoImpulses :: "real list" where
  "demoImpulses = [0, 0, 0, 0, 128, 0, 0, 128, 0, 0, 128, 0, 0, 0, 128, 0, 0, 128, 0, 0, 0]"

definition demoRms :: "real list" where
  "demoRms = [0, 0, 0, 4, 4, 0, 4, 4, 0, 4, 4, 0, 0, 4, 4, 0, 4, 4, 0, 0]"

definition demoSmoothed :: "real list" where
  "demoSmoothed = [0, 1, 1, 1, 2, 1, 1, 2, 1, 1, 1, 1, 1, 1, 2, 1, 1, 1, 0, 0]"

definition demoOnsets :: "onset list" where
  "demoOnsets = [\<lparr>time = 1 / 5, originalRms = 4, odfValue = 2\<rparr>,
                 \<lparr>time = 7 / 20, originalRms = 4, odfValue = 2\<rparr>,
                 \<lparr>time = 7 / 10, originalRms = 4, odfValue = 2\<rparr>]"

text \<open>
  Five clicks in 31 blocks (15872 samples), the third one twice as loud. At 25600 Hz the
  candidates are at 0.08 s, 0.14 s and 0.48 s, and the second is the most salient.
\<close>

definition clashImpulses :: "real list" where
  "clashImpulses = [0, 0, 0, 0, 128, 0, 0, 128, 0, 0, 256, 0, 0, 0, 0, 0, 0, 0, 0, 0, 0,
                    0, 0, 0, 128, 0, 0, 128, 0, 0, 0]"

definition clashRms :: "real list" where
  "clashRms = [0, 0, 0, 4, 4, 0, 4, 4, 0, 8, 8, 0, 0, 0, 0, 0, 0, 0, 0, 0, 0, 0, 0,
               4, 4, 0, 4, 4, 0, 0]"

definition clashSmoothed :: "real list" where
  "clashSmoothed = [0, 1, 1, 1, 2, 1, 1, 3, 2, 2, 2, 0, 0, 0, 0, 0, 0, 0, 0, 0, 0,
                    1, 1, 1, 2, 1, 1, 1, 0, 0]"

definition clashOnsets :: "onset list" where
  "clashOnsets = [\<lparr>time = 2 / 25, originalRms = 4, odfValue = 2\<rparr>,
                  \<lparr>time = 7 / 50, originalRms = 4, odfValue = 3\<rparr>,
                  \<lparr>time = 12 / 25, originalRms = 4, odfValue = 2\<rparr>]"

definition clashQuantized :: "onset list" where
  "clashQuantized = [\<lparr>time = 2 / 25, originalRms = 4, odfValue = 2\<rparr>,
                     \<lparr>time = 2 / 25, originalRms = 4, odfValue = 3\<rparr>,
                     \<lparr>time = 364 / 625, originalRms = 4, odfValue = 2\<rparr>]"

text \<open>
  Two isolated clicks in 16 blocks (8192 samples), of amplitude 256 and 128. Each gives a
  plateau of four equal values in the smoothed curve, and no strict peak.
\<close>

definition plateauImpulses :: "real list" where
  "plateauImpulses = [0, 0, 0, 0, 256, 0, 0, 0, 0, 0, 0, 0, 128, 0, 0, 0]"

definition plateauRms :: "real list" where
  "plateauRms = [0, 0, 0, 8, 8, 0, 0, 0, 0, 0, 0, 4, 4, 0, 0]"

definition plateauSmoothed :: "real list" where
  "plateauSmoothed = [0, 2, 2, 2, 2, 0, 0, 0, 0, 1, 1, 1, 1, 0, 0]"

subsection \<open>Proof devices\<close>

text \<open>
  The key assignment as a recursion over the quantized notes, with the two trackers as
  arguments; \<open>finalNotesOf\<close> is shown equal to it.
\<close>

fun laneWalk :: "real \<Rightarrow> string \<Rightarrow> string \<Rightarrow> onset list \<Rightarrow> note_event list" where
  "laneWalk t ls lw [] = []"
| "laneWalk t ls lw (n # ns) =
     (if originalRms n \<ge> t
      then (let k = (if ls = ''ArrowUp'' then ''ArrowDown'' else ''ArrowUp'')
            in \<lparr>time = time n, key = k\<rparr> # laneWalk t k lw ns)
      else (let k = (if lw = ''ArrowLeft'' then ''ArrowRight'' else ''ArrowLeft'')
            in \<lparr>time = time n, key = k\<rparr> # laneWalk t ls k ns))"

text \<open>
  The invariant of the quantizer's inner loop after the subdivisions \<open>seen\<close>: either no
  subdivision had a grid step and the state is the initial one, or the state holds the
  nearest grid point found so far and its distance.
\<close>

definition snapInv :: "real \<Rightarrow> real \<Rightarrow> real \<Rightarrow> real list \<Rightarrow> real \<times> real option \<Rightarrow> bool" where
  "snapInv beat start t seen st =
     (case snd st of
        None \<Rightarrow> fst st = t \<and> (\<forall>s\<in>set seen. beat * s = 0)
      | Some d \<Rightarrow>
          d = \<bar>t - fst st\<bar> \<and>
          (\<exists>s\<in>set seen. beat * s \<noteq> 0 \<and>
             fst st = gridPoint start beat s (round ((t - start) / (beat * s)))) \<and>
          (\<forall>s\<in>set seen. \<forall>m. beat * s \<noteq> 0 \<longrightarrow> d \<le> \<bar>t - gridPoint start beat s m\<bar>))"

section \<open>Tempo estimation\<close>

text \<open>
  The doubling loop leaves 0 at 0: no run of it from 0 reaches the \<open>Some\<close> that stands
  for leaving the loop.
\<close>

lemma doubleLoop_nonzero:
  assumes "doubleLoop e = Some y"
  shows "e \<noteq> 0"
  by (rule doubleLoop.raw_induct[where P = "\<lambda>e y. e \<noteq> 0", OF _ assms])
     (fastforce simp: maxBPM_def split: if_splits)

lemma doubleLoop_zero: "doubleLoop 0 = None"
  using doubleLoop_nonzero[of 0] by (cases "doubleLoop 0") auto

text \<open>Without two candidates there is no interval, and \<open>dominantIoi\<close> keeps its initial 0.\<close>

lemma dominantIoi_few: "length detectedOnsets < 2 \<Longrightarrow> dominantIoi detectedOnsets = 0"
  by (simp add: dominantIoi_def ioisOf_def)

lemma estimate_few:
  "length detectedOnsets < 2 \<Longrightarrow> estimatedBeatDuration detectedOnsets = None"
  by (simp add: estimatedBeatDuration_def octaveCorrection_def dominantIoi_few doubleLoop_zero
      minBPM_def maxBPM_def)

text \<open>
  The halving loop ends for every positive period, the doubling loop ends exactly for the
  positive periods: so the estimation returns when the dominant interval is positive, and
  only then, and what it returns lies between 0.1 s and 2 s.
\<close>

lemma halveLoop_returns: "0 < e \<Longrightarrow> \<exists>y. halveLoop e = Some y"
proof -
  have step: "0 < e \<Longrightarrow> e \<le> 2 ^ n \<Longrightarrow> \<exists>y. halveLoop e = Some y" for n e
  proof (induction n arbitrary: e)
    case 0
    then show ?case by (subst halveLoop.simps) (simp add: minBPM_def)
  next
    case (Suc n)
    show ?case
    proof (cases "e > 60 / minBPM \<and> e > 0.1")
      case True
      from Suc.prems have "0 < e / 2" "e / 2 \<le> 2 ^ n" by simp_all
      from Suc.IH[OF this] True show ?thesis by (subst halveLoop.simps) simp
    next
      case False
      then show ?thesis by (subst halveLoop.simps) auto
    qed
  qed
  assume pos: "0 < e"
  obtain n where "e < 2 ^ n" using real_arch_pow[of 2 e] by auto
  with step[OF pos, of n] show ?thesis by simp
qed

lemma doubleLoop_returns: "0 < e \<Longrightarrow> \<exists>y. doubleLoop e = Some y"
proof -
  have step: "0 < e \<Longrightarrow> 3 / 10 \<le> e * 2 ^ n \<Longrightarrow> \<exists>y. doubleLoop e = Some y" for n e
  proof (induction n arbitrary: e)
    case 0
    then show ?case by (subst doubleLoop.simps) (simp add: maxBPM_def)
  next
    case (Suc n)
    show ?case
    proof (cases "e < 60 / maxBPM \<and> e < 2")
      case True
      from Suc.prems have "0 < e * 2" "3 / 10 \<le> e * 2 * 2 ^ n" by (simp_all add: mult.assoc)
      from Suc.IH[OF this] True show ?thesis by (subst doubleLoop.simps) simp
    next
      case False
      then show ?thesis by (subst doubleLoop.simps) auto
    qed
  qed
  assume pos: "0 < e"
  obtain n where "3 / (10 * e) < 2 ^ n" using real_arch_pow[of 2 "3 / (10 * e)"] by auto
  with pos have "3 / 10 \<le> e * 2 ^ n"
    by (simp add: field_simps)
  with step[OF pos] show ?thesis by blast
qed

lemma doubleLoop_positive:
  assumes "doubleLoop e = Some y"
  shows "0 < e"
  by (rule doubleLoop.raw_induct[where P = "\<lambda>e y. 0 < e", OF _ assms])
     (fastforce simp: maxBPM_def split: if_splits)

lemma octaveCorrection_returns_iff: "octaveCorrection e = None \<longleftrightarrow> e \<le> 0"
proof
  assume none: "octaveCorrection e = None"
  show "e \<le> 0"
  proof (rule ccontr)
    assume "\<not> e \<le> 0"
    then have "0 < e" by simp
    from halveLoop_returns[OF this] doubleLoop_returns[OF this] none show False
      by (auto simp: octaveCorrection_def split: if_splits)
  qed
next
  assume "e \<le> 0"
  moreover have "doubleLoop e = None"
    using doubleLoop_positive[of e] \<open>e \<le> 0\<close> by (cases "doubleLoop e") auto
  ultimately show "octaveCorrection e = None"
    by (simp add: octaveCorrection_def minBPM_def maxBPM_def)
qed

lemma estimate_returns_iff:
  "estimatedBeatDuration detectedOnsets = None \<longleftrightarrow> dominantIoi detectedOnsets \<le> 0"
  by (simp add: estimatedBeatDuration_def octaveCorrection_returns_iff)

lemma estimate_in_band:
  "estimatedBeatDuration detectedOnsets = Some b \<Longrightarrow> 1 / 10 \<le> b \<and> b \<le> 2"
  by (auto simp: estimatedBeatDuration_def tempoFallback_def)

text \<open>
  Claim C1 says that the tempo estimation ends for every candidate list and that fewer than
  two candidates give the default beat period 0.5. The code does not do so. With no
  candidate \<open>dominantIoi\<close> is 0; 0 is not above \<open>60 / minBPM\<close>, it is below
  \<open>60 / maxBPM\<close>, and \<open>while (e < 60 / maxBPM && e < 2) e *= 2\<close> never leaves 0. The
  fallback \<open>estimatedBeatDuration === 0\<close>, written after the loop, is never reached.
\<close>

theorem tempo_estimation_hangs_on_no_onsets:
  "dominantIoi [] = 0 \<and> octaveCorrection 0 = None \<and> estimatedBeatDuration [] = None"
  by (simp add: estimate_few dominantIoi_few octaveCorrection_def doubleLoop_zero
      minBPM_def maxBPM_def)

section \<open>Silence\<close>

lemma foldl_window:
  "foldl (\<lambda>sum j. sum + (raw ! (i + j))\<^sup>2) a [0..<n] = a + (\<Sum>j<n. (raw ! (i + j))\<^sup>2)"
  for raw :: "real list"
  by (induction n) simp_all

lemma silent_nth: "\<forall>x\<in>set xs. x = 0 \<Longrightarrow> i < length xs \<Longrightarrow> xs ! i = (0::real)"
  by simp

lemma windowRms_silent:
  assumes "\<forall>x\<in>set raw. x = 0" "i + winSize \<le> length raw"
  shows "windowRms raw i = 0"
proof -
  have "raw ! (i + j) = 0" if "j < winSize" for j
    using assms that by simp
  then show ?thesis by (simp add: windowRms_def foldl_window)
qed

lemma rmsLoop_silent: "\<forall>x\<in>set raw. x = 0 \<Longrightarrow> \<forall>x\<in>set (rmsLoop raw i). x = 0"
proof (induction raw i rule: rmsLoop.induct)
  case (1 raw i)
  then show ?case by (subst rmsLoop.simps) (auto simp: windowRms_silent)
qed

lemma odfOf_silent: "\<forall>x\<in>set rms. x = 0 \<Longrightarrow> \<forall>x\<in>set (odfOf rms). x = 0"
  by (auto simp: odfOf_def silent_nth)

lemma smoothStep_silent:
  assumes "\<forall>x\<in>set odf. x = 0"
  shows "fst (foldl (smoothStep odf i) (0, c) js) = 0"
  using assms
proof (induction js arbitrary: c)
  case Nil
  then show ?case by simp
next
  case (Cons j js)
  have "smoothStep odf i (0, c) j = (0, c) \<or> smoothStep odf i (0, c) j = (0, c + 1)"
    using Cons.prems by (auto simp: smoothStep_def)
  then show ?case using Cons.IH[OF Cons.prems] by auto
qed

lemma smoothOdf_silent:
  assumes "\<forall>x\<in>set odf. x = 0"
  shows "\<forall>x\<in>set (smoothOdf odf). x = 0"
proof -
  have "smoothAt odf i = 0" for i
    using smoothStep_silent[OF assms, of i 0 "[- \<lfloor>odfSmoothWindow / 2\<rfloor> .. \<lceil>odfSmoothWindow / 2\<rceil>]"]
    by (auto simp: smoothAt_def split: prod.splits)
  then show ?thesis by (simp add: smoothOdf_def)
qed

lemma findIndex_none: "\<forall>x\<in>set xs. \<not> p x \<Longrightarrow> findIndex p xs = - 1"
  by (induction xs) simp_all

text \<open>The peak loop collects, in order, the frames that pass its test.\<close>

lemma foldl_collect:
  "foldl (\<lambda>acc i. if P i then acc @ [f i] else acc) acc is = acc @ map f (filter P is)"
  by (induction "is" arbitrary: acc) simp_all

lemma peakLoop_filter:
  "peakLoop sr d rms sm =
     map (onsetAt sr rms sm)
       [i \<leftarrow> [1..<length sm - 1].
          sm ! i > dynamicThreshold d sm \<and> sm ! i > sm ! (i - 1) \<and> sm ! i > sm ! (i + 1)]"
  unfolding peakLoop_def by (simp add: foldl_collect)

lemma detect_silent:
  assumes "\<forall>x\<in>set rms. x = 0"
  shows "detectOnsets sr d rms = []"
proof -
  define sm where "sm = smoothOdf (odfOf rms)"
  have z: "\<forall>x\<in>set sm. x = 0"
    unfolding sm_def by (intro smoothOdf_silent odfOf_silent assms)
  then have vs: "odfValuesForThreshold sm = []"
    by (auto simp: odfValuesForThreshold_def filter_empty_conv)
  have stats: "meanOdf sm = 0" "stdOdf sm = 0"
    by (simp_all add: meanOdf_def stdOdf_def vs)
  have "\<not> sm ! i > 0" if "i < length sm" for i
    using z that by (simp add: silent_nth)
  then have peaks: "peakLoop sr d rms sm = []"
    by (auto simp: peakLoop_filter dynamicThreshold_def stats filter_empty_conv)
  have idx: "firstStrongOdfIdx sm = - 1"
    unfolding firstStrongOdfIdx_def stats using z by (intro findIndex_none) auto
  show ?thesis
    by (simp add: detectOnsets_def sm_def[symmetric] peaks leadingRescue_def idx)
qed

lemma detect_silence: "detectOnsets sr d (rmsEnvelope (replicate n 0)) = []"
  by (rule detect_silent) (use rmsLoop_silent[of "replicate n 0" 0] in \<open>simp add: rmsEnvelope_def\<close>)

text \<open>
  Claim C3 says that a buffer of zeros, at any sample rate and difficulty, gives no onset
  candidate and an empty note list. The first half holds. The second does not: with no
  candidate the tempo estimation never ends (the defect of claim C1), so \<open>generateLevel\<close>
  returns nothing at all, for every length \<open>n\<close> of the silence.
\<close>

theorem silence_has_no_onsets_and_never_returns:
  "detectOnsets sr d (rmsEnvelope (replicate n 0)) = [] \<and>
   generateLevel (replicate n 0) sr d = None"
  by (simp add: generateLevel_def detect_silence estimate_few)

section \<open>Smoothing\<close>

lemma smoothWindow: "[- \<lfloor>odfSmoothWindow / 2\<rfloor> .. \<lceil>odfSmoothWindow / 2\<rceil>] = [- 1, 0, 1, 2]"
  by (simp add: odfSmoothWindow_def upto.simps)

lemma smoothOdf_length: "length (smoothOdf odf) = length odf"
  by (simp add: smoothOdf_def)

text \<open>Away from the ends the window holds four values, from \<open>i - 1\<close> to \<open>i + 2\<close>.\<close>

lemma smoothAt_interior:
  assumes "1 \<le> i" "i + 2 < length odf"
  shows "smoothAt odf i = (odf ! (i - 1) + odf ! i + odf ! (i + 1) + odf ! (i + 2)) / 4"
  using assms
  by (simp add: smoothAt_def smoothWindow smoothStep_def nat_add_distrib nat_diff_distrib)

text \<open>
  Claim C5 says that each smoothed value is the mean of the raw values at \<open>i - 1\<close>, \<open>i\<close>
  and \<open>i + 1\<close> that are in range. The code declares \<open>odfSmoothWindow = 3\<close>, "window size
  for smoothing", but its loop runs to \<open>Math.ceil(3 / 2) = 2\<close> inclusive and takes
  \<open>i + 2\<close> as well. On the onset curve of the envelope \<open>[0, 0, 0, 4]\<close> the value at index
  1 is 1, where the mean of the three values around index 1 is 0; the lengths agree.
\<close>

theorem smoothing_window_reaches_two_ahead:
  "odfOf [0, 0, 0, 4] = [0, 0, 0, 4] \<and>
   smoothOdf [0, 0, 0, 4] = [0, 1, 4 / 3, 2] \<and>
   map (centredMean3 [0, 0, 0, 4]) [0..<4] = [0, 0, 4 / 3, 2]"
  by (simp add: odfOf_def smoothOdf_def smoothAt_def smoothWindow smoothStep_def centredMean3_def
      upt_rec)

section \<open>Onset picking\<close>

lemma foldl_plus: "foldl (\<lambda>a b. a + b) a vs = a + sum_list vs" for a :: real
  by (induction vs arbitrary: a) simp_all

lemma foldl_squares:
  "foldl (\<lambda>a b. a + (b - m)\<^sup>2) a vs = a + sum_list (map (\<lambda>v. (v - m)\<^sup>2) vs)" for a :: real
  by (induction vs arbitrary: a) simp_all

lemma meanOdf_spec: "meanOdf sm = meanOf (positiveValues sm)"
  by (simp add: meanOdf_def meanOf_def positiveValues_def odfValuesForThreshold_def foldl_plus
      Let_def)

lemma stdOdf_spec: "stdOdf sm = stdDevOf (positiveValues sm)"
  by (simp add: stdOdf_def stdDevOf_def odfValuesForThreshold_def foldl_squares meanOdf_spec
      Let_def)
     (simp add: positiveValues_def)

text \<open>
  The statistics of the threshold and the candidates of the peak loop (lines 345 to 367), in
  the words of the specification.
\<close>

lemma peak_loop_spec:
  "meanOdf sm = meanOf (positiveValues sm) \<and>
   stdOdf sm = stdDevOf (positiveValues sm) \<and>
   peakLoop sr d rms sm =
     map (onsetAt sr rms sm)
       [i \<leftarrow> [1..<length sm - 1].
          sm ! i > sm ! (i - 1) \<and> sm ! i > sm ! (i + 1) \<and>
          sm ! i > meanOf (positiveValues sm) + stdDevOf (positiveValues sm) * odfSensitivity d]"
proof -
  have "(\<lambda>i. sm ! i > dynamicThreshold d sm \<and> sm ! i > sm ! (i - 1) \<and> sm ! i > sm ! (i + 1))
      = (\<lambda>i. sm ! i > sm ! (i - 1) \<and> sm ! i > sm ! (i + 1) \<and>
          sm ! i > meanOf (positiveValues sm) + stdDevOf (positiveValues sm) * odfSensitivity d)"
    by (auto simp: dynamicThreshold_def meanOdf_spec stdOdf_spec)
  then show ?thesis
    by (simp add: meanOdf_spec stdOdf_spec peakLoop_filter)
qed

text \<open>
  The picker's final list holds the candidates of the peak loop and at most one more, the
  frame of the leading-onset rescue (lines 370 to 379), which is chosen by another test.
\<close>

lemma detect_candidates:
  "set (detectOnsets sr d rms)
     \<subseteq> set (peakLoop sr d rms (smoothOdf (odfOf rms)))
       \<union> {onsetAt sr rms (smoothOdf (odfOf rms))
            (nat (firstStrongOdfIdx (smoothOdf (odfOf rms))))}"
  by (auto simp: detectOnsets_def leadingRescue_def Let_def)

subsection \<open>Curves of fewer than three samples\<close>

lemma odfOf_length: "length (odfOf rms) = max 1 (length rms)"
  by (auto simp: odfOf_def)

lemma smooth_single: "smoothOdf [x] = [x]"
  by (simp add: smoothOdf_def smoothAt_def smoothWindow smoothStep_def)

lemma smooth_pair: "smoothOdf [x, y] = [(x + y) / 2, (x + y) / 2]"
  by (simp add: smoothOdf_def smoothAt_def smoothWindow smoothStep_def upt_rec)

lemma short_envelopes:
  "length (odfOf rms) < 3 \<Longrightarrow> rms = [] \<or> (\<exists>a. rms = [a]) \<or> (\<exists>a b. rms = [a, b])"
  by (cases rms; cases "tl rms"; cases "tl (tl rms)") (auto simp: odfOf_def)

lemma detect_none_or_one: "detectOnsets sr d [] = []" "detectOnsets sr d [a] = []"
  by (simp_all add: detectOnsets_def odfOf_def smooth_single leadingRescue_def
      firstStrongOdfIdx_def meanOdf_def stdOdf_def odfValuesForThreshold_def peakLoop_def)

text \<open>
  Two envelope values give a smoothed curve of two equal values: its deviation is 0 and no
  value exceeds the mean, so the rescue finds nothing either.
\<close>

lemma detect_two: "detectOnsets sr d [a, b] = []"
proof -
  define m where "m = max 0 (b - a)"
  have sm: "smoothOdf (odfOf [a, b]) = [m / 2, m / 2]"
    by (simp add: odfOf_def smooth_pair m_def)
  have m0: "0 \<le> m" by (simp add: m_def)
  have mean: "meanOdf [m / 2, m / 2] = m / 2"
    using m0 by (simp add: meanOdf_def odfValuesForThreshold_def)
  have std: "stdOdf [m / 2, m / 2] = 0"
    using m0 by (simp add: stdOdf_def mean odfValuesForThreshold_def)
  show ?thesis
    unfolding detectOnsets_def sm
    by (simp add: leadingRescue_def firstStrongOdfIdx_def mean std peakLoop_def)
qed

text \<open>
  Claim C9: an envelope whose onset curve has fewer than three samples gives no candidate,
  the leading-onset rescue included.
\<close>

theorem short_curve_has_no_candidates:
  "length (odfOf rms) < 3 \<Longrightarrow> detectOnsets sr d rms = []"
  using short_envelopes[of rms] by (auto simp: detect_none_or_one detect_two)

theorem short_curve_has_no_candidates_witness:
  "length (odfOf [1, 3]) < 3 \<and> detectOnsets 44100 Medium [1, 3] = []"
proof -
  have h: "length (odfOf [1, 3]) < 3" by (simp add: odfOf_def)
  show ?thesis using h short_curve_has_no_candidates[OF h, of 44100 Medium] by simp
qed

subsection \<open>The frames of the candidates\<close>

text \<open>
  \<open>onsetAt\<close> reads \<open>rms[i]\<close> and \<open>smoothedOdf[i]\<close>. Both reads are in range at every
  frame the picker uses: the onset curve is one sample long for the empty envelope and as
  long as the envelope otherwise, and no frame of the one-sample curve is used.
\<close>

lemma findIndex_found:
  "0 \<le> findIndex p xs \<Longrightarrow> nat (findIndex p xs) < length xs \<and> p (xs ! nat (findIndex p xs))"
proof (induction xs)
  case Nil
  then show ?case by simp
next
  case (Cons x xs)
  show ?case
  proof (cases "p x")
    case True
    then show ?thesis by simp
  next
    case False
    with Cons.prems have r: "0 \<le> findIndex p xs"
      by (simp add: Let_def split: if_splits)
    with Cons.IH False show ?thesis
      by (simp add: Let_def nat_add_distrib)
  qed
qed

lemma peak_frames_in_range:
  "i \<in> set [1..<length (smoothOdf (odfOf rms)) - 1] \<Longrightarrow> i < length rms"
  by (auto simp: smoothOdf_length odfOf_length)

lemma rescue_frame_in_range:
  assumes "0 \<le> firstStrongOdfIdx (smoothOdf (odfOf rms))"
  shows "nat (firstStrongOdfIdx (smoothOdf (odfOf rms))) < length rms"
proof (cases rms)
  case Nil
  have "smoothOdf (odfOf []) = [0]"
    by (simp add: odfOf_def smooth_single)
  then have "firstStrongOdfIdx (smoothOdf (odfOf [])) = - 1"
    by (simp add: firstStrongOdfIdx_def meanOdf_def stdOdf_def odfValuesForThreshold_def)
  with assms Nil show ?thesis by simp
next
  case (Cons a as)
  then have "length (smoothOdf (odfOf rms)) = length rms"
    by (simp add: smoothOdf_length odfOf_length)
  with findIndex_found[OF assms[unfolded firstStrongOdfIdx_def]] show ?thesis
    by (simp add: firstStrongOdfIdx_def)
qed

section \<open>Quantization\<close>

text \<open>Rounding the quotient picks a nearest multiple of the grid step.\<close>

lemma nearest_multiple:
  fixes u :: real
  assumes "u \<noteq> 0"
  shows "\<bar>t - (real_of_int (round ((t - s) / u)) * u + s)\<bar> \<le> \<bar>t - (real_of_int m * u + s)\<bar>"
proof -
  define x where "x = (t - s) / u"
  have t: "t = x * u + s" using assms by (simp add: x_def)
  have "\<bar>t - (real_of_int (round x) * u + s)\<bar> = \<bar>x - real_of_int (round x)\<bar> * \<bar>u\<bar>"
    by (simp add: t abs_mult[symmetric] left_diff_distrib)
  also have "\<dots> \<le> \<bar>x - real_of_int m\<bar> * \<bar>u\<bar>"
    by (intro mult_right_mono round_diff_minimal) simp
  also have "\<dots> = \<bar>t - (real_of_int m * u + s)\<bar>"
    by (simp add: t abs_mult[symmetric] left_diff_distrib)
  finally show ?thesis by (simp add: x_def)
qed

lemma snapInv_step:
  assumes "snapInv beat start (time c) seen st"
  shows "snapInv beat start (time c) (seen @ [s]) (snapStep beat start c st s)"
proof (cases "beat * s = 0")
  case True
  then have step: "snapStep beat start c st s = st"
    by (cases st) (simp add: snapStep_def del: mult_eq_0_iff)
  show ?thesis unfolding step using assms True
    by (auto simp: snapInv_def simp del: mult_eq_0_iff split: option.splits)
next
  case False
  define g where "g = gridPoint start beat s (round ((time c - start) / (beat * s)))"
  have gmin: "\<bar>time c - g\<bar> \<le> \<bar>time c - gridPoint start beat s m\<bar>" for m
    unfolding g_def gridPoint_def using nearest_multiple[OF False] by simp
  obtain b md where st: "st = (b, md)" by (cases st)
  show ?thesis
  proof (cases md)
    case None
    then have step: "snapStep beat start c st s = (g, Some \<bar>time c - g\<bar>)"
      using False by (simp add: st snapStep_def g_def gridPoint_def Let_def)
    show ?thesis unfolding step using assms gmin False
      by (auto simp: snapInv_def st None g_def)
  next
    case (Some d)
    show ?thesis
    proof (cases "\<bar>time c - g\<bar> < d")
      case True
      then have step: "snapStep beat start c st s = (g, Some \<bar>time c - g\<bar>)"
        using False by (simp add: st Some snapStep_def g_def gridPoint_def Let_def)
      have "\<bar>time c - g\<bar> \<le> \<bar>time c - gridPoint start beat s' m\<bar>"
        if "s' \<in> set seen" "beat * s' \<noteq> 0" for s' m
      proof -
        have "d \<le> \<bar>time c - gridPoint start beat s' m\<bar>"
          using assms that by (fastforce simp: snapInv_def st Some simp del: mult_eq_0_iff)
        with True show ?thesis by linarith
      qed
      then show ?thesis unfolding step using gmin False
        by (auto simp: snapInv_def g_def)
    next
      case nless: False
      then have step: "snapStep beat start c st s = st"
        using False by (simp add: st Some snapStep_def g_def gridPoint_def Let_def)
      have "d \<le> \<bar>time c - gridPoint start beat s m\<bar>" for m
        using gmin[of m] nless by simp
      then show ?thesis unfolding step using assms False
        by (auto simp: snapInv_def st Some)
    qed
  qed
qed

lemma snapInv_fold:
  "snapInv beat start (time c) grid (foldl (snapStep beat start c) (time c, None) grid)"
proof (induction grid rule: rev_induct)
  case Nil
  show ?case by (simp add: snapInv_def)
next
  case (snoc s grid)
  then show ?case using snapInv_step[OF snoc.IH, of s] by simp
qed

text \<open>
  Claim C7: for a non-empty candidate list (it has a candidate \<open>k\<close>), the quantizer keeps
  the number of candidates, leaves \<open>originalRms\<close> and \<open>odfValue\<close> of each as they are,
  and replaces its time by \<open>max 0 b\<close>, where \<open>b\<close> is a point of the grid of some
  subdivision with a non-zero step, counted from the first candidate's time, and no point
  of the grid of any subdivision with a non-zero step is nearer to the candidate's time.
  When every subdivision has step 0, \<open>b\<close> is the candidate's own time.
\<close>

theorem quantizer_snaps_to_nearest_grid_point:
  assumes "k < length cands"
  shows "length (quantizedNotesOf beat grid cands) = length cands \<and>
         originalRms (quantizedNotesOf beat grid cands ! k) = originalRms (cands ! k) \<and>
         odfValue (quantizedNotesOf beat grid cands ! k) = odfValue (cands ! k) \<and>
         (\<exists>b. time (quantizedNotesOf beat grid cands ! k) = max 0 b \<and>
              (if \<forall>s\<in>set grid. beat * s = 0 then b = time (cands ! k)
               else (\<exists>s\<in>set grid. \<exists>m. beat * s \<noteq> 0 \<and>
                        b = gridPoint (time (cands ! 0)) beat s m) \<and>
                    (\<forall>s\<in>set grid. \<forall>m. beat * s \<noteq> 0 \<longrightarrow>
                       \<bar>time (cands ! k) - b\<bar>
                         \<le> \<bar>time (cands ! k) - gridPoint (time (cands ! 0)) beat s m\<bar>)))"
proof -
  define start where "start = time (cands ! 0)"
  define c where "c = cands ! k"
  define st where "st = foldl (snapStep beat start c) (time c, None) grid"
  define P where "P b \<longleftrightarrow>
       (if \<forall>s\<in>set grid. beat * s = 0 then b = time c
        else (\<exists>s\<in>set grid. \<exists>m. beat * s \<noteq> 0 \<and> b = gridPoint start beat s m) \<and>
             (\<forall>s\<in>set grid. \<forall>m. beat * s \<noteq> 0 \<longrightarrow>
                \<bar>time c - b\<bar> \<le> \<bar>time c - gridPoint start beat s m\<bar>))" for b
  have q: "quantizedNotesOf beat grid cands ! k = quantizeOnset beat grid start c"
    using assms by (auto simp: quantizedNotesOf_def start_def c_def)
  have qt: "time (quantizeOnset beat grid start c) = max 0 (fst st)"
    by (simp add: quantizeOnset_def st_def split: prod.splits)
  have keep: "originalRms (quantizeOnset beat grid start c) = originalRms c"
             "odfValue (quantizeOnset beat grid start c) = odfValue c"
    by (simp_all add: quantizeOnset_def split: prod.splits)
  have inv: "snapInv beat start (time c) grid st"
    unfolding st_def by (rule snapInv_fold)
  have "P (fst st)"
  proof (cases "snd st")
    case None
    then show ?thesis using inv unfolding P_def
      by (auto simp: snapInv_def simp del: mult_eq_0_iff)
  next
    case (Some d)
    then show ?thesis using inv unfolding P_def
      by (auto simp: snapInv_def simp del: mult_eq_0_iff)
  qed
  with qt have "\<exists>b. time (quantizeOnset beat grid start c) = max 0 b \<and> P b" by blast
  moreover have "length (quantizedNotesOf beat grid cands) = length cands"
    by (simp add: quantizedNotesOf_def)
  ultimately show ?thesis
    using keep unfolding q P_def start_def c_def by blast
qed

text \<open>
  The theorem at the second of the three candidates of the test signal, with the beat
  period 0.304 s and the grid of \<open>Easy\<close>: it moves from 0.35 s to 0.352 s, the first
  eighth note after the origin 0.2 s.
\<close>

theorem quantizer_snaps_to_nearest_grid_point_witness:
  "1 < length demoOnsets \<and>
   length (quantizedNotesOf (38 / 125) (quantizationGrid Easy) demoOnsets) = 3 \<and>
   originalRms (quantizedNotesOf (38 / 125) (quantizationGrid Easy) demoOnsets ! 1) = 4 \<and>
   odfValue (quantizedNotesOf (38 / 125) (quantizationGrid Easy) demoOnsets ! 1) = 2 \<and>
   time (quantizedNotesOf (38 / 125) (quantizationGrid Easy) demoOnsets ! 1) = 44 / 125 \<and>
   44 / 125 = gridPoint (1 / 5) (38 / 125) (1 / 2) 1"
proof -
  have h: "1 < length demoOnsets" by (simp add: demoOnsets_def)
  have t: "time (quantizedNotesOf (38 / 125) (quantizationGrid Easy) demoOnsets ! 1) = 44 / 125"
    by code_simp
  have g: "44 / 125 = gridPoint (1 / 5) (38 / 125) (1 / 2) 1"
    by (simp add: gridPoint_def)
  from quantizer_snaps_to_nearest_grid_point[OF h, of "38 / 125" "quantizationGrid Easy"]
  show ?thesis using h t g by (simp add: demoOnsets_def)
qed

section \<open>Key assignment\<close>

lemma foldl_keyStep:
  "fst (foldl (keyStep t) (acc, ls, lw) qs) = acc @ laneWalk t ls lw qs"
  by (induction qs arbitrary: acc ls lw) (simp_all add: keyStep_def Let_def)

lemma finalNotes_walk:
  "finalNotesOf qs = laneWalk (strongRmsThreshold qs) ''ArrowUp'' ''ArrowLeft'' qs"
  using foldl_keyStep[of _ "[]"] by (simp add: finalNotesOf_def)

lemma laneWalk_length: "length (laneWalk t ls lw qs) = length qs"
  by (induction qs arbitrary: ls lw) (simp_all add: Let_def)

lemma laneWalk_strong_class:
  "k < length qs \<Longrightarrow> originalRms (qs ! k) \<ge> t \<Longrightarrow>
   strongLane (key (laneWalk t ls lw qs ! k))"
proof (induction qs arbitrary: ls lw k)
  case Nil
  then show ?case by simp
next
  case (Cons n ns)
  show ?case
  proof (cases k)
    case 0
    with Cons.prems show ?thesis by (simp add: Let_def strongLane_def)
  next
    case (Suc k')
    with Cons.prems Cons.IH[of k'] show ?thesis by (simp add: Let_def)
  qed
qed

lemma laneWalk_weak_class:
  "k < length qs \<Longrightarrow> \<not> originalRms (qs ! k) \<ge> t \<Longrightarrow>
   weakLane (key (laneWalk t ls lw qs ! k))"
proof (induction qs arbitrary: ls lw k)
  case Nil
  then show ?case by simp
next
  case (Cons n ns)
  show ?case
  proof (cases k)
    case 0
    with Cons.prems show ?thesis by (simp add: Let_def weakLane_def)
  next
    case (Suc k')
    with Cons.prems Cons.IH[of k'] show ?thesis by (simp add: Let_def)
  qed
qed

text \<open>
  Putting the tracker in front of the lanes of its pair gives a list without two equal
  neighbours: the lanes of the pair alternate, and the first differs from the tracker.
\<close>

lemma laneWalk_strong_alternates:
  "strongLane ls \<Longrightarrow> distinct_adj (ls # filter strongLane (map key (laneWalk t ls lw qs)))"
  by (induction qs arbitrary: ls lw) (auto simp: Let_def strongLane_def)

lemma laneWalk_weak_alternates:
  "weakLane lw \<Longrightarrow> distinct_adj (lw # filter weakLane (map key (laneWalk t ls lw qs)))"
  by (induction qs arbitrary: ls lw) (auto simp: Let_def weakLane_def)

lemma laneWalk_first_strong:
  "k < length qs \<Longrightarrow> originalRms (qs ! k) \<ge> t \<Longrightarrow> \<forall>j<k. \<not> originalRms (qs ! j) \<ge> t \<Longrightarrow>
   key (laneWalk t ls lw qs ! k) = (if ls = ''ArrowUp'' then ''ArrowDown'' else ''ArrowUp'')"
proof (induction qs arbitrary: lw k)
  case Nil
  then show ?case by simp
next
  case (Cons n ns)
  show ?case
  proof (cases k)
    case 0
    with Cons.prems show ?thesis by (simp add: Let_def)
  next
    case (Suc k')
    with Cons.prems have "\<not> originalRms n \<ge> t" by auto
    moreover have "\<forall>j<k'. \<not> originalRms (ns ! j) \<ge> t" using Cons.prems Suc by auto
    ultimately show ?thesis using Cons.IH[of k'] Cons.prems Suc by (simp add: Let_def)
  qed
qed

lemma laneWalk_first_weak:
  "k < length qs \<Longrightarrow> \<not> originalRms (qs ! k) \<ge> t \<Longrightarrow> \<forall>j<k. originalRms (qs ! j) \<ge> t \<Longrightarrow>
   key (laneWalk t ls lw qs ! k) = (if lw = ''ArrowLeft'' then ''ArrowRight'' else ''ArrowLeft'')"
proof (induction qs arbitrary: ls k)
  case Nil
  then show ?case by simp
next
  case (Cons n ns)
  show ?case
  proof (cases k)
    case 0
    with Cons.prems show ?thesis by (simp add: Let_def)
  next
    case (Suc k')
    with Cons.prems have "originalRms n \<ge> t" by auto
    moreover have "\<forall>j<k'. originalRms (ns ! j) \<ge> t" using Cons.prems Suc by auto
    ultimately show ?thesis using Cons.IH[of k'] Cons.prems Suc by (simp add: Let_def)
  qed
qed

text \<open>
  Claim C10, on the output of the key assignment, before deduplication and the separation
  filter: the first note classified strong (its \<open>originalRms\<close> reaches the threshold, and
  that of no earlier note does) gets \<open>ArrowDown\<close>, and the first note classified weak
  gets \<open>ArrowRight\<close>.
\<close>

theorem first_strong_is_down_first_weak_is_right:
  assumes "k < length qs"
  shows "(originalRms (qs ! k) \<ge> strongRmsThreshold qs \<and>
          (\<forall>j<k. originalRms (qs ! j) < strongRmsThreshold qs)
            \<longrightarrow> key (finalNotesOf qs ! k) = ''ArrowDown'') \<and>
         (originalRms (qs ! k) < strongRmsThreshold qs \<and>
          (\<forall>j<k. originalRms (qs ! j) \<ge> strongRmsThreshold qs)
            \<longrightarrow> key (finalNotesOf qs ! k) = ''ArrowRight'')"
  using assms
    laneWalk_first_strong[where k = k and qs = qs and t = "strongRmsThreshold qs"
      and ls = "''ArrowUp''" and lw = "''ArrowLeft''"]
    laneWalk_first_weak[where k = k and qs = qs and t = "strongRmsThreshold qs"
      and ls = "''ArrowUp''" and lw = "''ArrowLeft''"]
  by (simp add: finalNotes_walk not_le)

text \<open>
  Three notes of strength 1, 3 and 2: the threshold is 2, so the first is the first weak
  note and the second is the first strong note.
\<close>

theorem first_strong_is_down_first_weak_is_right_witness:
  "strongRmsThreshold
     [\<lparr>time = 0, originalRms = 1, odfValue = 1\<rparr>, \<lparr>time = 1, originalRms = 3, odfValue = 1\<rparr>,
      \<lparr>time = 2, originalRms = 2, odfValue = 1\<rparr>] = 2 \<and>
   map key (finalNotesOf
     [\<lparr>time = 0, originalRms = 1, odfValue = 1\<rparr>, \<lparr>time = 1, originalRms = 3, odfValue = 1\<rparr>,
      \<lparr>time = 2, originalRms = 2, odfValue = 1\<rparr>]) ! 0 = ''ArrowRight'' \<and>
   map key (finalNotesOf
     [\<lparr>time = 0, originalRms = 1, odfValue = 1\<rparr>, \<lparr>time = 1, originalRms = 3, odfValue = 1\<rparr>,
      \<lparr>time = 2, originalRms = 2, odfValue = 1\<rparr>]) ! 1 = ''ArrowDown''"
proof -
  let ?qs = "[\<lparr>time = 0, originalRms = 1, odfValue = 1\<rparr>, \<lparr>time = 1, originalRms = 3, odfValue = 1\<rparr>,
              \<lparr>time = 2, originalRms = 2, odfValue = 1\<rparr>] :: onset list"
  have thr: "strongRmsThreshold ?qs = 2"
    by (simp add: strongRmsThreshold_def strongNoteThreshold_def)
  have len: "length (finalNotesOf ?qs) = 3"
    by (simp only: finalNotes_walk laneWalk_length) simp
  have weak: "key (finalNotesOf ?qs ! 0) = ''ArrowRight''"
    using first_strong_is_down_first_weak_is_right[of 0 ?qs] by (simp add: thr)
  have strong: "key (finalNotesOf ?qs ! 1) = ''ArrowDown''"
    using first_strong_is_down_first_weak_is_right[of 1 ?qs] by (simp add: thr)
  show ?thesis using thr weak strong len by simp
qed

section \<open>Deduplication and minimum separation\<close>

text \<open>Both steps only select among the notes they are given.\<close>

lemma update_values: "snd ` set (AList.update k v al) \<subseteq> insert v (snd ` set al)"
  by (induction al) auto

lemma dedupStep_values:
  "snd ` set (dedupStep qs m n) \<subseteq> insert n (snd ` set m)"
  using update_values[of "timeKeyOf (time n)" n m]
  by (auto simp: dedupStep_def Let_def split: option.splits)

lemma uniqueNotes_values:
  "snd ` set (foldl (dedupStep qs) m ns) \<subseteq> snd ` set m \<union> set ns"
proof (induction ns arbitrary: m)
  case Nil
  then show ?case by simp
next
  case (Cons n ns)
  show ?case using Cons.IH[of "dedupStep qs m n"] dedupStep_values[of qs m n] by auto
qed

lemma filteredNotes_subset: "set (filteredNotesOf qs ns) \<subseteq> set ns"
  using uniqueNotes_values[of qs "[]" ns] by (simp add: filteredNotesOf_def uniqueNotesMapOf_def)

lemma separation_fold_subset:
  "set (foldl (\<lambda>processedNotes n. if time n - time (last processedNotes) \<ge> m
                  then processedNotes @ [n] else processedNotes) acc rest)
     \<subseteq> set acc \<union> set rest"
proof (induction rest arbitrary: acc)
  case Nil
  then show ?case by simp
next
  case (Cons n ns)
  show ?case using Cons.IH[of "acc @ [n]"] Cons.IH[of acc] by auto
qed

lemma processedNotes_subset: "set (processedNotesOf m xs) \<subseteq> set xs"
proof (cases xs)
  case Nil
  then show ?thesis by (simp add: processedNotesOf_def)
next
  case (Cons x xs')
  then show ?thesis
    using separation_fold_subset[of m "[x]" xs'] by (simp add: processedNotesOf_def)
qed

lemma chart_subset:
  "set (chartOf d beat onsets)
     \<subseteq> set (finalNotesOf (quantizedNotesOf beat (quantizationGrid d) onsets))"
  using processedNotes_subset filteredNotes_subset unfolding chartOf_def Let_def by blast

text \<open>The separation filter compares each note with the last one it kept.\<close>

lemma separation_fold:
  assumes "acc \<noteq> []" "successively (\<lambda>a b. time b - time a \<ge> m) acc"
  shows "successively (\<lambda>a b. time b - time a \<ge> m)
           (foldl (\<lambda>processedNotes n. if time n - time (last processedNotes) \<ge> m
                     then processedNotes @ [n] else processedNotes) acc rest)"
  using assms
proof (induction rest arbitrary: acc)
  case Nil
  then show ?case by simp
next
  case (Cons n ns)
  show ?case
  proof (cases "time n - time (last acc) \<ge> m")
    case True
    have "successively (\<lambda>a b. time b - time a \<ge> m) (acc @ [n])"
      using Cons.prems True by (simp add: successively_append_iff)
    then show ?thesis using Cons.IH[of "acc @ [n]"] True by simp
  next
    case False
    then show ?thesis using Cons.IH[of acc] Cons.prems by simp
  qed
qed

lemma processedNotes_separated:
  "successively (\<lambda>a b. time b - time a \<ge> m) (processedNotesOf m xs)"
  unfolding processedNotesOf_def by (auto intro: separation_fold)

lemma gaps_give_order:
  fixes m :: real
  assumes "0 < m" "successively (\<lambda>a b. time b - time a \<ge> m) xs"
  shows "sorted_wrt (\<lambda>a b. time a < time b) xs"
proof -
  have "successively (\<lambda>a b. time a < time b) xs"
    by (rule successively_mono[OF assms(2)]) (use assms(1) in auto)
  then show ?thesis
    by (simp add: successively_conv_sorted_wrt transp_def)
qed

lemma minNoteSeparation_pos: "0 < minNoteSeparation d"
  by (cases d) simp_all

section \<open>Two test signals, stage by stage\<close>

lemma impulseBlocks_length: "length (impulseBlocks cs) = hop * length cs"
  by (induction cs) (simp_all add: impulseBlocks_def hop_def winSize_def)

lemma impulseBlocks_nth:
  "k < length cs \<Longrightarrow> j < hop \<Longrightarrow>
   impulseBlocks cs ! (hop * k + j) = (if j = 0 then cs ! k else 0)"
proof (induction cs arbitrary: k)
  case Nil
  then show ?case by simp
next
  case (Cons c cs)
  define blk where "blk = c # replicate (hop - 1) 0"
  have len: "length blk = hop" by (simp add: blk_def hop_def winSize_def)
  have app: "impulseBlocks (c # cs) = blk @ impulseBlocks cs"
    by (simp add: impulseBlocks_def blk_def)
  show ?case
  proof (cases k)
    case 0
    have "(blk @ impulseBlocks cs) ! j = blk ! j"
      using Cons.prems(2) by (simp add: nth_append len)
    also have "\<dots> = (if j = 0 then c else 0)"
      using Cons.prems(2) by (cases j) (simp_all add: blk_def)
    finally show ?thesis by (simp add: app 0)
  next
    case (Suc k')
    have "hop * k + j = length blk + (hop * k' + j)" by (simp add: Suc len)
    then have "impulseBlocks (c # cs) ! (hop * k + j) = impulseBlocks cs ! (hop * k' + j)"
      unfolding app by (simp only: nth_append_length_plus)
    then show ?thesis using Cons.IH[of k'] Cons.prems Suc by simp
  qed
qed

lemma block_energy:
  assumes "k < length cs"
  shows "(\<Sum>j = 0..<hop. (impulseBlocks cs ! (hop * k + j))\<^sup>2) = (cs ! k)\<^sup>2"
proof -
  have "(\<Sum>j = 0..<hop. (impulseBlocks cs ! (hop * k + j))\<^sup>2)
      = (\<Sum>j = 0..<hop. if j = 0 then (cs ! k)\<^sup>2 else 0)"
    by (rule sum.cong) (simp_all add: impulseBlocks_nth assms)
  also have "\<dots> = (cs ! k)\<^sup>2"
    by (simp add: hop_def winSize_def)
  finally show ?thesis .
qed

lemma window_energy:
  assumes "k + 1 < length cs"
  shows "(\<Sum>j<winSize. (impulseBlocks cs ! (hop * k + j))\<^sup>2) = (cs ! k)\<^sup>2 + (cs ! (k + 1))\<^sup>2"
proof -
  let ?f = "\<lambda>j. (impulseBlocks cs ! (hop * k + j))\<^sup>2"
  have w: "{..<winSize} = {0..<hop + hop}" by (simp add: hop_def winSize_def lessThan_atLeast0)
  have "sum ?f {0..<hop + hop} = sum ?f {0..<hop} + sum ?f {0 + hop..<hop + hop}"
    by (simp add: sum.atLeastLessThan_concat)
  also have "sum ?f {0 + hop..<hop + hop} = (\<Sum>j = 0..<hop. ?f (j + hop))"
    by (rule sum.shift_bounds_nat_ivl)
  also have "\<dots> = (\<Sum>j = 0..<hop. (impulseBlocks cs ! (hop * (k + 1) + j))\<^sup>2)"
    by (rule sum.cong) (simp_all add: algebra_simps)
  also have "\<dots> = (cs ! (k + 1))\<^sup>2"
    by (rule block_energy[OF assms])
  also have "sum ?f {0..<hop} = (cs ! k)\<^sup>2"
    by (rule block_energy) (use assms in simp)
  finally show ?thesis unfolding w .
qed

lemma windowRms_impulseBlocks:
  assumes "k + 1 < length cs"
  shows "windowRms (impulseBlocks cs) (hop * k)
           = sqrt (((cs ! k)\<^sup>2 + (cs ! (k + 1))\<^sup>2) / real winSize)"
  by (simp add: windowRms_def foldl_window window_energy[OF assms])

lemma rmsLoop_impulseBlocks:
  "rmsLoop (impulseBlocks cs) (hop * k) =
     map (\<lambda>k. sqrt (((cs ! k)\<^sup>2 + (cs ! (k + 1))\<^sup>2) / real winSize)) [k..<length cs - 1]"
proof (induction "length cs - 1 - k" arbitrary: k)
  case 0
  then have "\<not> hop * k + winSize \<le> length (impulseBlocks cs)"
    by (simp add: impulseBlocks_length hop_def winSize_def)
  then show ?case using 0 by (subst rmsLoop.simps) simp
next
  case (Suc n)
  then have k: "k + 1 < length cs" by simp
  then have fits: "hop * k + winSize \<le> length (impulseBlocks cs)"
    by (simp add: impulseBlocks_length hop_def winSize_def)
  have next': "hop * k + hop = hop * (k + 1)" by simp
  have "n = length cs - 1 - (k + 1)" using Suc.hyps(2) by simp
  from Suc.hyps(1)[OF this] fits k show ?case
    by (subst rmsLoop.simps)
       (simp add: windowRms_impulseBlocks next' upt_conv_Cons del: mult_Suc_right)
qed

text \<open>The envelope of such a signal: one value for each pair of neighbouring blocks.\<close>

lemma rmsEnvelope_impulseBlocks:
  "rmsEnvelope (impulseBlocks cs) =
     map (\<lambda>(a, b). sqrt ((a\<^sup>2 + b\<^sup>2) / real winSize)) (zip cs (tl cs))"
proof -
  have "rmsEnvelope (impulseBlocks cs) =
     map (\<lambda>k. sqrt (((cs ! k)\<^sup>2 + (cs ! (k + 1))\<^sup>2) / real winSize)) [0..<length cs - 1]"
    using rmsLoop_impulseBlocks[of cs 0] by (simp add: rmsEnvelope_def)
  also have "\<dots> = map (\<lambda>(a, b). sqrt ((a\<^sup>2 + b\<^sup>2) / real winSize)) (zip cs (tl cs))"
    by (rule nth_equalityI) (auto simp: nth_tl)
  finally show ?thesis .
qed

lemma sqrt_16: "sqrt 16 = 4"
  using real_sqrt_abs[of 4] by simp

lemma sqrt_64: "sqrt 64 = 8"
  using real_sqrt_abs[of 8] by simp

subsection \<open>The first signal\<close>

lemma demo_rms: "rmsEnvelope (impulseBlocks demoImpulses) = demoRms"
  by (simp add: rmsEnvelope_impulseBlocks demoImpulses_def demoRms_def winSize_def sqrt_16)

lemma demo_smoothed: "smoothOdf (odfOf demoRms) = demoSmoothed"
  by code_simp

lemma demo_mean: "meanOdf demoSmoothed = 20 / 17"
  by code_simp

lemma demo_std: "stdOdf demoSmoothed = sqrt (42 / 289)"
  unfolding stdOdf_def demo_mean
  by (simp add: demoSmoothed_def odfValuesForThreshold_def power2_eq_square)

lemma demo_std_bounds: "0 \<le> stdOdf demoSmoothed" "stdOdf demoSmoothed < 1"
  by (simp_all add: demo_std)

lemma upt_1_19: "[1..<19] = [1, 2, 3, 4, 5, 6, 7, 8, 9, 10, 11, 12, 13, 14, 15, 16, 17, 18]"
  by code_simp

lemma demo_peaks: "peakLoop 10240 Easy demoRms demoSmoothed = demoOnsets"
proof -
  define T where "T = dynamicThreshold Easy demoSmoothed"
  have T: "1 \<le> T" "T < 2"
    using demo_std_bounds by (simp_all add: T_def dynamicThreshold_def demo_mean)
  have len: "length demoSmoothed - 1 = 19" by (simp add: demoSmoothed_def)
  have "[i \<leftarrow> [1..<19]. demoSmoothed ! i > T \<and> demoSmoothed ! i > demoSmoothed ! (i - 1)
           \<and> demoSmoothed ! i > demoSmoothed ! (i + 1)] = [4, 7, 14]"
    using T unfolding upt_1_19 by (simp add: demoSmoothed_def)
  then show ?thesis
    unfolding peakLoop_filter len T_def[symmetric]
    by (simp add: onsetAt_def demoOnsets_def demoRms_def demoSmoothed_def hop_def winSize_def)
qed

lemma demo_first_strong: "firstStrongOdfIdx demoSmoothed = 4"
proof -
  define T where "T = meanOdf demoSmoothed + stdOdf demoSmoothed * 0.1"
  have T: "1 \<le> T" "T < 2"
    using demo_std_bounds by (simp_all add: T_def demo_mean)
  have "findIndex (\<lambda>v. v > T) demoSmoothed = 4"
    using T by (simp add: demoSmoothed_def)
  then show ?thesis by (simp add: firstStrongOdfIdx_def T_def)
qed

lemma demo_detect: "detectOnsets 10240 Easy demoRms = demoOnsets"
proof -
  have "leadingRescue 10240 demoRms demoSmoothed demoOnsets = demoOnsets"
    by (simp add: leadingRescue_def demo_first_strong) (simp add: demoOnsets_def hop_def winSize_def)
  moreover have "sort_key time demoOnsets = demoOnsets"
    by (simp add: demoOnsets_def)
  ultimately show ?thesis
    by (simp add: detectOnsets_def demo_smoothed demo_peaks)
qed

lemma demo_dominant: "dominantIoi demoOnsets = 19 / 125"
  by code_simp

lemma demo_double: "doubleLoop (19 / 125) = Some (38 / 125)"
  by (subst doubleLoop.simps, simp add: maxBPM_def)+

lemma demo_beat: "estimatedBeatDuration demoOnsets = Some (38 / 125)"
  by (simp add: estimatedBeatDuration_def octaveCorrection_def demo_dominant demo_double
      minBPM_def maxBPM_def tempoFallback_def)

lemma demo_final:
  "finalNotesOf (quantizedNotesOf (38 / 125) (quantizationGrid Easy) demoOnsets) =
     [\<lparr>time = 1 / 5, key = ''ArrowDown''\<rparr>, \<lparr>time = 44 / 125, key = ''ArrowUp''\<rparr>,
      \<lparr>time = 82 / 125, key = ''ArrowDown''\<rparr>]"
  by code_simp

lemma demo_chart:
  "chartOf Easy (38 / 125) demoOnsets =
     [\<lparr>time = 1 / 5, key = ''ArrowDown''\<rparr>, \<lparr>time = 82 / 125, key = ''ArrowDown''\<rparr>]"
  by code_simp

lemma demo_level:
  "generateLevel (impulseBlocks demoImpulses) 10240 Easy =
     Some [\<lparr>time = 1 / 5, key = ''ArrowDown''\<rparr>, \<lparr>time = 82 / 125, key = ''ArrowDown''\<rparr>]"
  by (simp add: generateLevel_def demo_rms demo_detect demo_beat demo_chart)

subsection \<open>The second signal\<close>

lemma clash_rms: "rmsEnvelope (impulseBlocks clashImpulses) = clashRms"
  by (simp add: rmsEnvelope_impulseBlocks clashImpulses_def clashRms_def winSize_def
      sqrt_16 sqrt_64)

lemma clash_smoothed: "smoothOdf (odfOf clashRms) = clashSmoothed"
  by code_simp

lemma clash_mean: "meanOdf clashSmoothed = 24 / 17"
  by code_simp

lemma clash_std: "stdOdf clashSmoothed = sqrt (104 / 289)"
  unfolding stdOdf_def clash_mean
  by (simp add: clashSmoothed_def odfValuesForThreshold_def power2_eq_square)

lemma clash_std_bounds: "0 \<le> stdOdf clashSmoothed" "stdOdf clashSmoothed < 1"
  by (simp_all add: clash_std)

lemma upt_1_29:
  "[1..<29] = [1, 2, 3, 4, 5, 6, 7, 8, 9, 10, 11, 12, 13, 14, 15, 16, 17, 18, 19, 20, 21, 22,
               23, 24, 25, 26, 27, 28]"
  by code_simp

lemma clash_peaks: "peakLoop 25600 Easy clashRms clashSmoothed = clashOnsets"
proof -
  define T where "T = dynamicThreshold Easy clashSmoothed"
  have T: "1 \<le> T" "T < 2"
    using clash_std_bounds by (simp_all add: T_def dynamicThreshold_def clash_mean)
  have len: "length clashSmoothed - 1 = 29" by (simp add: clashSmoothed_def)
  have "[i \<leftarrow> [1..<29]. clashSmoothed ! i > T \<and> clashSmoothed ! i > clashSmoothed ! (i - 1)
           \<and> clashSmoothed ! i > clashSmoothed ! (i + 1)] = [4, 7, 24]"
    using T unfolding upt_1_29 by (simp add: clashSmoothed_def)
  then show ?thesis
    unfolding peakLoop_filter len T_def[symmetric]
    by (simp add: onsetAt_def clashOnsets_def clashRms_def clashSmoothed_def hop_def winSize_def)
qed

lemma clash_first_strong: "firstStrongOdfIdx clashSmoothed = 4"
proof -
  define T where "T = meanOdf clashSmoothed + stdOdf clashSmoothed * 0.1"
  have T: "1 \<le> T" "T < 2"
    using clash_std_bounds by (simp_all add: T_def clash_mean)
  have "findIndex (\<lambda>v. v > T) clashSmoothed = 4"
    using T by (simp add: clashSmoothed_def)
  then show ?thesis by (simp add: firstStrongOdfIdx_def T_def)
qed

lemma clash_detect: "detectOnsets 25600 Easy clashRms = clashOnsets"
proof -
  have "leadingRescue 25600 clashRms clashSmoothed clashOnsets = clashOnsets"
    by (simp add: leadingRescue_def clash_first_strong)
       (simp add: clashOnsets_def hop_def winSize_def)
  moreover have "sort_key time clashOnsets = clashOnsets"
    by (simp add: clashOnsets_def)
  ultimately show ?thesis
    by (simp add: detectOnsets_def clash_smoothed clash_peaks)
qed

lemma clash_dominant: "dominantIoi clashOnsets = 157 / 2500"
  by code_simp

lemma clash_double: "doubleLoop (157 / 2500) = Some (314 / 625)"
  by (subst doubleLoop.simps, simp add: maxBPM_def)+

lemma clash_beat: "estimatedBeatDuration clashOnsets = Some (314 / 625)"
  by (simp add: estimatedBeatDuration_def octaveCorrection_def clash_dominant clash_double
      minBPM_def maxBPM_def tempoFallback_def)

lemma clash_quantized:
  "quantizedNotesOf (314 / 625) (quantizationGrid Easy) clashOnsets = clashQuantized"
  by code_simp

lemma clash_final:
  "finalNotesOf clashQuantized =
     [\<lparr>time = 2 / 25, key = ''ArrowDown''\<rparr>, \<lparr>time = 2 / 25, key = ''ArrowUp''\<rparr>,
      \<lparr>time = 364 / 625, key = ''ArrowDown''\<rparr>]"
  by code_simp

lemma clash_filtered:
  "filteredNotesOf clashQuantized (finalNotesOf clashQuantized) =
     [\<lparr>time = 2 / 25, key = ''ArrowDown''\<rparr>, \<lparr>time = 364 / 625, key = ''ArrowDown''\<rparr>]"
  by code_simp

lemma clash_chart:
  "chartOf Easy (314 / 625) clashOnsets =
     [\<lparr>time = 2 / 25, key = ''ArrowDown''\<rparr>, \<lparr>time = 364 / 625, key = ''ArrowDown''\<rparr>]"
  by code_simp

lemma clash_level:
  "generateLevel (impulseBlocks clashImpulses) 25600 Easy =
     Some [\<lparr>time = 2 / 25, key = ''ArrowDown''\<rparr>, \<lparr>time = 364 / 625, key = ''ArrowDown''\<rparr>]"
  by (simp add: generateLevel_def clash_rms clash_detect clash_beat clash_chart)

section \<open>The onset picker as a whole\<close>

lemma findIndex_filter:
  "findIndex p xs =
     (case [i \<leftarrow> [0..<length xs]. p (xs ! i)] of [] \<Rightarrow> - 1 | r # _ \<Rightarrow> int r)"
proof (induction xs)
  case Nil
  then show ?case by simp
next
  case (Cons x xs)
  have up: "[0..<length (x # xs)] = 0 # map Suc [0..<length xs]"
    by (simp add: upt_conv_Cons map_Suc_upt del: upt_Suc)
  have shift: "[i \<leftarrow> map Suc [0..<length xs]. p ((x # xs) ! i)]
                 = map Suc [i \<leftarrow> [0..<length xs]. p (xs ! i)]"
    by (simp add: filter_map comp_def)
  show ?case
    unfolding up using Cons.IH
    by (simp add: shift Let_def split: list.splits)
qed

lemma firstStrongOdfIdx_loose:
  "firstStrongOdfIdx sm = (case looseFrames sm of [] \<Rightarrow> - 1 | r # _ \<Rightarrow> int r)"
  by (simp add: firstStrongOdfIdx_def looseFrames_def findIndex_filter meanOdf_spec stdOdf_spec)

lemma peakLoop_strictPeaks:
  "peakLoop sr d rms sm = map (onsetAt sr rms sm) (strictPeakFrames d sm)"
  using peak_loop_spec[of sm sr d rms] by (simp add: strictPeakFrames_def)

lemma leadingRescue_frames:
  "leadingRescue sr rms sm (peakLoop sr d rms sm) =
     map (onsetAt sr rms sm) (rescuedFrames sr d sm @ strictPeakFrames d sm)"
proof (cases "looseFrames sm")
  case Nil
  then show ?thesis
    by (simp add: leadingRescue_def firstStrongOdfIdx_loose rescuedFrames_def
        peakLoop_strictPeaks)
next
  case loose: (Cons r rs)
  show ?thesis
  proof (cases "strictPeakFrames d sm")
    case Nil
    then show ?thesis
      by (simp add: leadingRescue_def firstStrongOdfIdx_loose rescuedFrames_def
          peakLoop_strictPeaks loose)
  next
    case (Cons p ps)
    then show ?thesis
      by (simp add: leadingRescue_def firstStrongOdfIdx_loose rescuedFrames_def
          peakLoop_strictPeaks loose onsetAt_def)
  qed
qed

lemma sqrt_quarter: "sqrt (1 / 4) = 1 / 2"
  using real_sqrt_abs[of "1 / 2"] by (simp add: power2_eq_square)

lemma plateau_rms: "rmsEnvelope (impulseBlocks plateauImpulses) = plateauRms"
  by (simp add: rmsEnvelope_impulseBlocks plateauImpulses_def plateauRms_def winSize_def
      sqrt_16 sqrt_64)

lemma plateau_smoothed: "smoothOdf (odfOf plateauRms) = plateauSmoothed"
  by code_simp

lemma plateau_mean: "meanOdf plateauSmoothed = 3 / 2"
  by code_simp

lemma plateau_std: "stdOdf plateauSmoothed = 1 / 2"
  unfolding stdOdf_def plateau_mean
  by (simp add: plateauSmoothed_def odfValuesForThreshold_def power2_eq_square sqrt_quarter)

lemma plateau_threshold: "dynamicThreshold Hard plateauSmoothed = 21 / 10"
  by (simp add: dynamicThreshold_def plateau_mean plateau_std)

lemma plateau_peaks: "peakLoop 44100 Hard plateauRms plateauSmoothed = []"
  unfolding peakLoop_filter plateau_threshold
  by (simp add: plateauSmoothed_def upt_rec)

lemma plateau_first_strong: "firstStrongOdfIdx plateauSmoothed = 1"
  by (simp add: firstStrongOdfIdx_def plateau_mean plateau_std) (simp add: plateauSmoothed_def)

lemma plateau_detect:
  "detectOnsets 44100 Hard plateauRms = [onsetAt 44100 plateauRms plateauSmoothed 1]"
  by (simp add: detectOnsets_def plateau_smoothed plateau_peaks leadingRescue_def
      plateau_first_strong)

text \<open>
  Claim C6 says that in the onset picker the mean and the standard deviation of the
  threshold are taken over the strictly positive values of the smoothed curve, and that a
  frame other than the first and the last is emitted as a candidate if and only if its
  value is strictly above both neighbours and strictly above
  \<open>mean + stdDev * sensitivity\<close>. The "only if" fails: the leading-onset rescue of the
  same picker (lines 370 to 379) emits a frame by another test. For the two-click signal at
  \<open>Hard\<close> the picker emits frame 1, whose value 2 equals that of frame 2 and is below
  the threshold 2.1; the peak loop emits nothing.
\<close>

theorem picker_emits_a_frame_that_is_no_peak_counterexample:
  "detectOnsets 44100 Hard (rmsEnvelope (impulseBlocks plateauImpulses))
     = [\<lparr>time = 128 / 11025, originalRms = 0, odfValue = 2\<rparr>] \<and>
   \<lparr>time = 128 / 11025, originalRms = 0, odfValue = 2\<rparr>
     = onsetAt 44100 (rmsEnvelope (impulseBlocks plateauImpulses))
         (smoothOdf (odfOf (rmsEnvelope (impulseBlocks plateauImpulses)))) 1 \<and>
   (1::nat) < length (smoothOdf (odfOf (rmsEnvelope (impulseBlocks plateauImpulses)))) - 1 \<and>
   \<not> smoothOdf (odfOf (rmsEnvelope (impulseBlocks plateauImpulses))) ! 1
       > smoothOdf (odfOf (rmsEnvelope (impulseBlocks plateauImpulses))) ! 2 \<and>
   \<not> smoothOdf (odfOf (rmsEnvelope (impulseBlocks plateauImpulses))) ! 1
       > meanOf (positiveValues (smoothOdf (odfOf (rmsEnvelope (impulseBlocks plateauImpulses)))))
         + stdDevOf (positiveValues
             (smoothOdf (odfOf (rmsEnvelope (impulseBlocks plateauImpulses)))))
           * odfSensitivity Hard \<and>
   peakLoop 44100 Hard (rmsEnvelope (impulseBlocks plateauImpulses))
     (smoothOdf (odfOf (rmsEnvelope (impulseBlocks plateauImpulses)))) = []"
proof -
  have on: "onsetAt 44100 plateauRms plateauSmoothed 1
              = \<lparr>time = 128 / 11025, originalRms = 0, odfValue = 2\<rparr>"
    by (simp add: onsetAt_def plateauRms_def plateauSmoothed_def hop_def winSize_def)
  have thr: "meanOf (positiveValues plateauSmoothed)
               + stdDevOf (positiveValues plateauSmoothed) * odfSensitivity Hard = 21 / 10"
    using plateau_threshold
    by (simp only: dynamicThreshold_def meanOdf_spec stdOdf_spec)
  have vals: "plateauSmoothed ! 1 = 2" "plateauSmoothed ! 2 = 2" "length plateauSmoothed = 15"
    by (simp_all add: plateauSmoothed_def)
  show ?thesis
    unfolding plateau_rms plateau_smoothed plateau_detect plateau_peaks thr vals on
    by simp
qed

text \<open>
  Claim C6 as amended. The mean and the standard deviation of the threshold are those of
  the strictly positive values of the smoothed curve. The peak loop emits, in order,
  exactly the strict peaks: the frames other than the first and the last whose value is
  strictly above both neighbours and strictly above \<open>mean + stdDev * sensitivity\<close>. The
  onset picker emits these and, in addition, the rescued frame when there is one (the first
  frame above \<open>mean + stdDev * 0.1\<close>, if there is no strict peak or the first strict
  peak is more than 0.1 s later), sorted by time; it emits nothing else.
\<close>

theorem picker_emits_strict_peaks_and_rescued_frame:
  "meanOdf sm = meanOf (positiveValues sm) \<and>
   stdOdf sm = stdDevOf (positiveValues sm) \<and>
   peakLoop sr d rms sm =
     map (onsetAt sr rms sm)
       [i \<leftarrow> [1..<length sm - 1].
          sm ! i > sm ! (i - 1) \<and> sm ! i > sm ! (i + 1) \<and>
          sm ! i > meanOf (positiveValues sm) + stdDevOf (positiveValues sm) * odfSensitivity d] \<and>
   detectOnsets sr d rms =
     sort_key time
       (map (onsetAt sr rms (smoothOdf (odfOf rms)))
          (rescuedFrames sr d (smoothOdf (odfOf rms))
             @ strictPeakFrames d (smoothOdf (odfOf rms))))"
  using peak_loop_spec[of sm sr d rms]
    leadingRescue_frames[of sr rms "smoothOdf (odfOf rms)" d]
  by (simp add: detectOnsets_def Let_def)

section \<open>The returned chart\<close>

text \<open>
  The function returns exactly when the dominant interval of its candidates is positive.
  With fewer than two candidates the interval is 0 in the source as in the model. With
  more, the model's intervals are exact: candidates that are evenly spaced have equal
  intervals and bin width 0 here, where the doubles of the source can differ in the last
  bit and give a positive bin width.
\<close>

lemma generateLevel_returns_iff:
  "generateLevel raw sr d = None
     \<longleftrightarrow> dominantIoi (detectOnsets sr d (rmsEnvelope raw)) \<le> 0"
  using estimate_returns_iff[of "detectOnsets sr d (rmsEnvelope raw)"]
  by (auto simp: generateLevel_def Let_def split: option.splits)

text \<open>
  What the function returns comes out of the separation filter, so it is strictly ascending
  in time with neighbours at least the minimum separation apart. This is a fact of the
  exact arithmetic of the model: the source makes the same test on rounded doubles, and a
  gap within a rounding error of the bound can fall on the other side.
\<close>

lemma returned_chart_separated:
  assumes "generateLevel raw sr d = Some notes"
  shows "sorted_wrt (\<lambda>a b. time a < time b) notes \<and>
         successively (\<lambda>a b. time b - time a \<ge> minNoteSeparation d) notes"
proof -
  obtain beat where
    "notes = chartOf d beat (detectOnsets sr d (rmsEnvelope raw))"
    using assms by (auto simp: generateLevel_def Let_def split: option.splits)
  then have sep: "successively (\<lambda>a b. time b - time a \<ge> minNoteSeparation d) notes"
    by (simp add: chartOf_def Let_def processedNotes_separated)
  with gaps_give_order[OF minNoteSeparation_pos sep] show ?thesis by simp
qed

text \<open>
  Claim C2 says that for every valid input, a non-empty buffer with a positive sample rate,
  and every difficulty, the note sequence that \<open>generateLevel\<close> returns is strictly
  ascending with neighbours at least the minimum separation apart. A valid input need not
  make the function return. 2048 samples of silence at 44100 Hz are a non-empty buffer
  with a positive rate; they have no onset candidate, the doubling loop of the tempo
  estimation never leaves 0 (the defect of claim C1), and no sequence is returned of
  which the property could hold.
\<close>

theorem valid_silent_buffer_returns_no_notes:
  "replicate 2048 (0::real) \<noteq> [] \<and> (0::real) < 44100 \<and>
   detectOnsets 44100 Medium (rmsEnvelope (replicate 2048 0)) = [] \<and>
   dominantIoi (detectOnsets 44100 Medium (rmsEnvelope (replicate 2048 0))) = 0 \<and>
   generateLevel (replicate 2048 0) 44100 Medium = None"
  by (simp add: generateLevel_def detect_silence estimate_few dominantIoi_few)

section \<open>Lanes\<close>

text \<open>
  Claim C8 says of the output that every note carries one of the four lane symbols, that
  strong notes carry a symbol of the strong pair and weak notes one of the weak pair, and
  that the lanes alternate within the strong-lane notes and within the weak-lane notes.
  The alternation does not survive the two filters of step 7, which drop notes after the
  lanes are assigned. The first test signal gives three strong notes, \<open>ArrowDown\<close>,
  \<open>ArrowUp\<close>, \<open>ArrowDown\<close>, at 0.2 s, 0.352 s and 0.656 s; the second is less than
  0.3 s after the first and the separation filter of \<open>Easy\<close> drops it, so the returned
  chart has two strong-lane notes in a row on \<open>ArrowDown\<close>.
\<close>

theorem returned_lanes_repeat_counterexample:
  "finalNotesOf (quantizedNotesOf (38 / 125) (quantizationGrid Easy) demoOnsets) =
     [\<lparr>time = 1 / 5, key = ''ArrowDown''\<rparr>, \<lparr>time = 44 / 125, key = ''ArrowUp''\<rparr>,
      \<lparr>time = 82 / 125, key = ''ArrowDown''\<rparr>] \<and>
   generateLevel (impulseBlocks demoImpulses) 10240 Easy =
     Some [\<lparr>time = 1 / 5, key = ''ArrowDown''\<rparr>, \<lparr>time = 82 / 125, key = ''ArrowDown''\<rparr>] \<and>
   \<not> distinct_adj (filter strongLane (map key
         [\<lparr>time = 1 / 5, key = ''ArrowDown''\<rparr>, \<lparr>time = 82 / 125, key = ''ArrowDown''\<rparr>]))"
  using demo_final demo_level by (simp add: strongLane_def)

text \<open>
  Claim C8 as amended. Every note of the returned chart is a note of the key assignment
  and carries one of the four lane symbols. In the output of the key assignment, before
  deduplication and the separation filter, a note whose strength reaches the threshold
  carries a symbol of the strong pair and any other note a symbol of the weak pair, and
  the lanes alternate strictly within the strong-lane notes and within the weak-lane
  notes.
\<close>

theorem lanes_alternate_after_key_assignment:
  "set (chartOf d beat onsets)
     \<subseteq> set (finalNotesOf (quantizedNotesOf beat (quantizationGrid d) onsets)) \<and>
   (\<forall>n \<in> set (chartOf d beat onsets).
      key n \<in> {''ArrowUp'', ''ArrowDown'', ''ArrowLeft'', ''ArrowRight''}) \<and>
   length (finalNotesOf qs) = length qs \<and>
   (\<forall>k<length qs.
      if originalRms (qs ! k) \<ge> strongRmsThreshold qs
      then strongLane (key (finalNotesOf qs ! k))
      else weakLane (key (finalNotesOf qs ! k))) \<and>
   distinct_adj (filter strongLane (map key (finalNotesOf qs))) \<and>
   distinct_adj (filter weakLane (map key (finalNotesOf qs)))"
proof -
  have len: "length (finalNotesOf qs') = length qs'" for qs'
    by (simp only: finalNotes_walk laneWalk_length)
  have cls: "if originalRms (qs' ! k) \<ge> strongRmsThreshold qs'
             then strongLane (key (finalNotesOf qs' ! k))
             else weakLane (key (finalNotesOf qs' ! k))" if "k < length qs'" for qs' k
    using that laneWalk_strong_class[of k qs' "strongRmsThreshold qs'"]
      laneWalk_weak_class[of k qs' "strongRmsThreshold qs'"]
    by (simp add: finalNotes_walk)
  have four: "key n \<in> {''ArrowUp'', ''ArrowDown'', ''ArrowLeft'', ''ArrowRight''}"
    if "n \<in> set (finalNotesOf qs')" for n qs'
  proof -
    from that obtain k where k: "k < length qs'" "n = finalNotesOf qs' ! k"
      by (auto simp: in_set_conv_nth len)
    from cls[OF k(1)] have "strongLane (key n) \<or> weakLane (key n)"
      by (auto simp: k(2) split: if_splits)
    then show ?thesis by (auto simp: strongLane_def weakLane_def)
  qed
  have "distinct_adj (''ArrowUp'' # filter strongLane (map key
          (laneWalk (strongRmsThreshold qs) ''ArrowUp'' ''ArrowLeft'' qs)))"
    by (rule laneWalk_strong_alternates) (simp add: strongLane_def)
  from distinct_adj_ConsD[OF this]
  have strong: "distinct_adj (filter strongLane (map key (finalNotesOf qs)))"
    by (simp only: finalNotes_walk)
  have "distinct_adj (''ArrowLeft'' # filter weakLane (map key
          (laneWalk (strongRmsThreshold qs) ''ArrowUp'' ''ArrowLeft'' qs)))"
    by (rule laneWalk_weak_alternates) (simp add: weakLane_def)
  from distinct_adj_ConsD[OF this]
  have weak: "distinct_adj (filter weakLane (map key (finalNotesOf qs)))"
    by (simp only: finalNotes_walk)
  show ?thesis
    using chart_subset[of d beat onsets] four len cls strong weak by blast
qed

text \<open>
  The theorem at the first test signal: its three quantized notes have strength 4, which is
  the threshold, and their lanes are \<open>ArrowDown\<close>, \<open>ArrowUp\<close>, \<open>ArrowDown\<close>.
\<close>

theorem lanes_alternate_after_key_assignment_witness:
  "(1::nat) < length (quantizedNotesOf (38 / 125) (quantizationGrid Easy) demoOnsets) \<and>
   originalRms (quantizedNotesOf (38 / 125) (quantizationGrid Easy) demoOnsets ! 1)
     \<ge> strongRmsThreshold (quantizedNotesOf (38 / 125) (quantizationGrid Easy) demoOnsets) \<and>
   strongLane (key (finalNotesOf
     (quantizedNotesOf (38 / 125) (quantizationGrid Easy) demoOnsets) ! 1)) \<and>
   \<lparr>time = 82 / 125, key = ''ArrowDown''\<rparr> \<in> set (chartOf Easy (38 / 125) demoOnsets) \<and>
   \<lparr>time = 82 / 125, key = ''ArrowDown''\<rparr>
     \<in> set (finalNotesOf (quantizedNotesOf (38 / 125) (quantizationGrid Easy) demoOnsets)) \<and>
   distinct_adj (filter strongLane (map key (finalNotesOf
     (quantizedNotesOf (38 / 125) (quantizationGrid Easy) demoOnsets))))"
proof -
  let ?qs = "quantizedNotesOf (38 / 125) (quantizationGrid Easy) demoOnsets"
  have h: "(1::nat) < length ?qs"
    by code_simp
  have s: "originalRms (?qs ! 1) \<ge> strongRmsThreshold ?qs"
    by code_simp
  have c: "\<lparr>time = 82 / 125, key = ''ArrowDown''\<rparr> \<in> set (chartOf Easy (38 / 125) demoOnsets)"
    by (simp add: demo_chart)
  from lanes_alternate_after_key_assignment[of Easy "38 / 125" demoOnsets ?qs]
  show ?thesis using h s c by auto
qed

section \<open>Deduplication of equal times\<close>

text \<open>
  Claim C4 says that of two onsets whose quantized times round to the same millisecond the
  deduplication keeps the note of the more salient one, and the first when the saliences
  are equal. The code looks the saliences up again with
  \<open>quantizedNotes.find(qn => ... && qn.time === note.time)\<close>. When the two quantized
  times are equal, which is what snapping two onsets to one grid line produces, both
  searches return the first quantized note with that time; its salience is compared with
  itself, and the note in the map is never replaced.

  The second test signal at 25600 Hz and \<open>Easy\<close>: the candidates at 0.08 s and 0.14 s
  have saliences 2 and 3 and are both quantized to 0.08 s. The note kept for millisecond
  80 is the \<open>ArrowDown\<close> of the first candidate, not the \<open>ArrowUp\<close> of the second,
  more salient one.
\<close>

theorem deduplication_keeps_first_of_equal_times:
  "detectOnsets 25600 Easy (rmsEnvelope (impulseBlocks clashImpulses)) = clashOnsets \<and>
   estimatedBeatDuration clashOnsets = Some (314 / 625) \<and>
   quantizedNotesOf (314 / 625) (quantizationGrid Easy) clashOnsets = clashQuantized \<and>
   map odfValue clashQuantized = [2, 3, 2] \<and>
   map (\<lambda>q. timeKeyOf (time q)) clashQuantized = [80, 80, 582] \<and>
   finalNotesOf clashQuantized =
     [\<lparr>time = 2 / 25, key = ''ArrowDown''\<rparr>, \<lparr>time = 2 / 25, key = ''ArrowUp''\<rparr>,
      \<lparr>time = 364 / 625, key = ''ArrowDown''\<rparr>] \<and>
   filteredNotesOf clashQuantized (finalNotesOf clashQuantized) =
     [\<lparr>time = 2 / 25, key = ''ArrowDown''\<rparr>, \<lparr>time = 364 / 625, key = ''ArrowDown''\<rparr>] \<and>
   generateLevel (impulseBlocks clashImpulses) 25600 Easy =
     Some [\<lparr>time = 2 / 25, key = ''ArrowDown''\<rparr>, \<lparr>time = 364 / 625, key = ''ArrowDown''\<rparr>]"
proof -
  have sal: "map odfValue clashQuantized = [2, 3, 2]"
    by (simp add: clashQuantized_def)
  have keys: "map (\<lambda>q. timeKeyOf (time q)) clashQuantized = [80, 80, 582]"
    by code_simp
  show ?thesis
    unfolding clash_rms
    by (intro conjI clash_detect clash_beat clash_quantized sal keys clash_final
        clash_filtered clash_level)
qed

end
